theory Spec2Isabelle
  imports Complex_Main "HOL-Library.Word"
begin

section \<open>Realtime effect state: data model\<close>

text \<open>
  A shallow embedding of \<^verbatim>\<open>src/effects/RealtimeEffectState.cpp\<close>.
  \<^verbatim>\<open>unsigned\<close> is a 32-bit word and \<^verbatim>\<open>size_t\<close> a 64-bit word, so that
  \<^verbatim>\<open>+=\<close>, \<^verbatim>\<open>-\<close> and \<^verbatim>\<open>%\<close> wrap as they do in the program.
  A pointer to \<^verbatim>\<open>float\<close> is an address counted in samples, with \<open>0\<close> for
  \<^verbatim>\<open>nullptr\<close>, and the audio buffers live in an explicit store.
  Sample rates are only stored and handed on, never computed with; they are reals here.
\<close>

type_synonym u32 = "32 word"
type_synonym size_t = "64 word"
type_synonym ptr = nat
type_synonym 'a memory = "nat \<Rightarrow> 'a"

text \<open>
  Modelled from the spec: \<^verbatim>\<open>EffectInterface.h\<close> is not among the sources.
  Settings are an opaque value that may be empty (\<^verbatim>\<open>std::any\<close>), with the
  generic ``extra'' part that carries the activation flag.
\<close>

record EffectSettingsExtra =
  mActive :: bool

record 'c EffectSettings =
  any_value :: "'c option"
  extra :: EffectSettingsExtra

definition has_value :: "'c EffectSettings \<Rightarrow> bool" where
  "has_value s \<longleftrightarrow> any_value s \<noteq> None"

text \<open>
  \<^verbatim>\<open>SettingsAndCounter\<close>. The width of \<^verbatim>\<open>Counter\<close> is declared in a header
  that is not among the sources; it is an unsigned type of some width \<open>'w\<close>.
\<close>

record (overloaded) ('c, 'w) SettingsAndCounter =
  settings :: "'c EffectSettings"
  counter :: "'w word"

text \<open>
  Modelled from the spec: \<^verbatim>\<open>MessageBuffer.h\<close> is not among the sources.
  The channel has two cells; \<open>Write\<close> assigns to the cell that is not current and
  makes it current, \<open>Read\<close> hands the current cell to a reader. Only the sequential
  behaviour is embedded.
\<close>

record 'd MessageBuffer =
  mSlot0 :: 'd
  mSlot1 :: 'd
  mLastWrittenSlot :: nat

definition MessageBuffer_Write ::
  "'d MessageBuffer \<Rightarrow> ('d \<Rightarrow> 'x \<Rightarrow> 'd) \<Rightarrow> 'x \<Rightarrow> 'd MessageBuffer" where
  "MessageBuffer_Write b assign arg =
     (let idx = 1 - mLastWrittenSlot b in
      (if idx = 0 then b\<lparr>mSlot0 := assign (mSlot0 b) arg\<rparr>
       else b\<lparr>mSlot1 := assign (mSlot1 b) arg\<rparr>)\<lparr>mLastWrittenSlot := idx\<rparr>)"

definition MessageBuffer_Read :: "'d MessageBuffer \<Rightarrow> ('d \<Rightarrow> 'r) \<Rightarrow> 'r" where
  "MessageBuffer_Read b reader =
     reader (if mLastWrittenSlot b = 0 then mSlot0 b else mSlot1 b)"

text \<open>\<^verbatim>\<open>AccessState::FromMainSlot\<close>: its move assignment and its \<^verbatim>\<open>Reader\<close>.\<close>

record (overloaded) ('c, 'w) FromMainSlot =
  mSettings :: "('c, 'w) SettingsAndCounter"

definition FromMainSlot_assign ::
  "('c, 'w) FromMainSlot \<Rightarrow> ('c, 'w) SettingsAndCounter \<Rightarrow> ('c, 'w) FromMainSlot" where
  "FromMainSlot_assign slot arg = slot\<lparr>mSettings := arg\<rparr>"

definition FromMainSlot_Reader ::
  "('c EffectSettings \<Rightarrow> 'c EffectSettings \<Rightarrow> 'c EffectSettings) \<Rightarrow>
   ('c, 'w::len) FromMainSlot \<Rightarrow> ('c, 'w) SettingsAndCounter \<Rightarrow> ('c, 'w) SettingsAndCounter" where
  "FromMainSlot_Reader CopySettingsContents slot worker =
     (if counter (mSettings slot) = counter worker then worker
      else
        (let w1 = worker\<lparr>counter := counter (mSettings slot)\<rparr>;
             w2 = w1\<lparr>settings := CopySettingsContents (settings (mSettings slot)) (settings w1)\<rparr>
         in w2\<lparr>settings := (settings w2)\<lparr>extra := extra (settings (mSettings slot))\<rparr>\<rparr>))"

text \<open>
  \<^verbatim>\<open>AccessState\<close>, in the control-to-worker direction: the channel, the counter last
  echoed by the worker and the last settings given to \<^verbatim>\<open>Set\<close>.
\<close>

record (overloaded) ('c, 'w) AccessState =
  mChannelFromMain :: "('c, 'w) FromMainSlot MessageBuffer"
  mCounter :: "'w word"
  mLastSettings :: "('c, 'w) SettingsAndCounter"

definition MainWrite ::
  "('c, 'w::len) SettingsAndCounter \<Rightarrow> ('c, 'w) AccessState \<Rightarrow> ('c, 'w) AccessState" where
  "MainWrite sc acc =
     acc\<lparr>mChannelFromMain := MessageBuffer_Write (mChannelFromMain acc) FromMainSlot_assign sc\<rparr>"

text \<open>
  Modelled from the spec: the plugin and its instance are external collaborators
  (their headers are not among the sources). This is the capability set of section 6 of
  the specification. An instance has a state \<open>'i\<close> of its own, which every hook may
  change; a hook returns its result with the new instance state.
\<close>

record ('c, 'o, 'i, 'a) EffectPlugin =
  MakeInstance :: "'i option"
  CopySettingsContents :: "'c EffectSettings \<Rightarrow> 'c EffectSettings \<Rightarrow> 'c EffectSettings"
  GetAudioInCount :: "'i \<Rightarrow> u32"
  GetAudioOutCount :: "'i \<Rightarrow> u32"
  GetBlockSize :: "'i \<Rightarrow> size_t"
  SetBlockSize :: "size_t \<Rightarrow> 'i \<Rightarrow> 'i"
  RealtimeInitialize :: "'c EffectSettings \<Rightarrow> real \<Rightarrow> 'i \<Rightarrow> bool \<times> 'i"
  RealtimeAddProcessor :: "'c EffectSettings \<Rightarrow> 'o option \<Rightarrow> u32 \<Rightarrow> real \<Rightarrow> 'i \<Rightarrow> bool \<times> 'i"
  RealtimeSuspend :: "'i \<Rightarrow> bool \<times> 'i"
  RealtimeResume :: "'i \<Rightarrow> bool \<times> 'i"
  RealtimeProcessStart :: "'c EffectSettings \<Rightarrow> 'i \<Rightarrow> bool \<times> 'i"
  RealtimeProcess ::
    "size_t \<Rightarrow> 'c EffectSettings \<Rightarrow> ptr list \<Rightarrow> ptr list \<Rightarrow> size_t \<Rightarrow> 'a memory \<Rightarrow> 'i
       \<Rightarrow> size_t \<times> 'a memory \<times> 'i"
  GetLatency :: "'c EffectSettings \<Rightarrow> real \<Rightarrow> 'i \<Rightarrow> size_t"
  RealtimeFinalize :: "'c EffectSettings \<Rightarrow> 'i \<Rightarrow> bool \<times> 'i"

text \<open>
  \<^verbatim>\<open>RealtimeEffectState\<close>. \<open>mPlugin\<close> says whether a plugin is bound; \<open>mwInstance\<close>
  is the weak reference to the instance: \<open>None\<close> when it has expired, the state of the
  instance otherwise. A track is identified by its address.
\<close>

record (overloaded) ('c, 'o, 'i, 'w) RealtimeEffectState =
  mPlugin :: bool
  mwInstance :: "'i option"
  mInitialized :: bool
  mLastActive :: bool
  mCurrentProcessor :: size_t
  mGroups :: "nat \<rightharpoonup> size_t \<times> real"
  mLatency :: "size_t option"
  mMainSettings :: "('c, 'w) SettingsAndCounter"
  mWorkerSettings :: "('c, 'w) SettingsAndCounter"
  mOutputs :: "'o option"
  mpAccessState :: "('c, 'w) AccessState option"

section \<open>Settings exchange\<close>

definition WorkerRead ::
  "('c, 'o, 'i, 'a) EffectPlugin \<Rightarrow> ('c, 'w::len) AccessState \<Rightarrow>
   ('c, 'o, 'i, 'w) RealtimeEffectState \<Rightarrow> ('c, 'o, 'i, 'w) RealtimeEffectState" where
  "WorkerRead P acc st =
     st\<lparr>mWorkerSettings :=
          MessageBuffer_Read (mChannelFromMain acc)
            (\<lambda>slot. FromMainSlot_Reader (CopySettingsContents P) slot (mWorkerSettings st))\<rparr>"

text \<open>
  \<^verbatim>\<open>Access::Set\<close>. The handle holds a weak reference to the state; the argument
  \<open>mwState\<close> is what \<^verbatim>\<open>lock()\<close> gives, \<open>None\<close> when the state is gone, and the
  result is the state after the call.
\<close>

definition Access_Set ::
  "'c EffectSettings \<Rightarrow> ('c, 'o, 'i, 'w::len) RealtimeEffectState option
     \<Rightarrow> ('c, 'o, 'i, 'w) RealtimeEffectState option" where
  "Access_Set new mwState =
     (if \<not> has_value new then mwState
      else case mwState of
        None \<Rightarrow> None
      | Some pState \<Rightarrow>
          (case mpAccessState pState of
             None \<Rightarrow> Some pState
           | Some pAccessState \<Rightarrow>
               (let l1 = (mLastSettings pAccessState)\<lparr>settings := new\<rparr>;
                    lastSettings = l1\<lparr>counter := counter l1 + 1\<rparr>;
                    acc = MainWrite lastSettings (pAccessState\<lparr>mLastSettings := lastSettings\<rparr>)
                in Some (pState\<lparr>mpAccessState := Some acc\<rparr>))))"

section \<open>Lifecycle\<close>

definition IsActive :: "('c, 'o, 'i, 'w) RealtimeEffectState \<Rightarrow> bool" where
  "IsActive st = mActive (extra (settings (mWorkerSettings st)))"

text \<open>
  \<^verbatim>\<open>EnsureInstance\<close> returns the instance (or nothing) and the state. An instance
  made here and not returned has no other owner, so the weak reference to it expires
  when the function returns; an instance that was alive on entry has another owner and
  stays alive.
\<close>

definition EnsureInstance ::
  "('c, 'o, 'i, 'a) EffectPlugin \<Rightarrow> real \<Rightarrow> ('c, 'o, 'i, 'w) RealtimeEffectState
     \<Rightarrow> 'i option \<times> ('c, 'o, 'i, 'w) RealtimeEffectState" where
  "EnsureInstance P sampleRate st =
     (if \<not> mPlugin st then (None, st)
      else if \<not> mInitialized st then
        (let st1 = st\<lparr>mWorkerSettings := mMainSettings st\<rparr>;
             st2 = st1\<lparr>mLastActive := IsActive st1\<rparr>;
             pInstance = (case mwInstance st2 of None \<Rightarrow> MakeInstance P | Some i \<Rightarrow> Some i)
         in case pInstance of
              None \<Rightarrow> (None, st2)
            | Some i \<Rightarrow>
                (let i1 = SetBlockSize P 512 i;
                     r = RealtimeInitialize P (settings (mMainSettings st2)) sampleRate i1
                 in if \<not> fst r
                    then (None, st2\<lparr>mwInstance := map_option (\<lambda>_. snd r) (mwInstance st)\<rparr>)
                    else (Some (snd r), st2\<lparr>mwInstance := Some (snd r), mInitialized := True\<rparr>)))
      else (mwInstance st, st))"

subsection \<open>The channel allocator\<close>

text \<open>
  \<^verbatim>\<open>AllocateChannelsToProcessors\<close>. The callback works on a state \<open>'s\<close> (what the
  lambda captures by reference) and may itself not return; the loop runs for ever when
  the output offset never reaches \<open>chans\<close>, and then the result is \<open>None\<close>.
\<close>

partial_function (option) alloc_loop ::
  "u32 \<Rightarrow> u32 \<Rightarrow> u32 \<Rightarrow> (u32 \<Rightarrow> u32 \<Rightarrow> 's \<Rightarrow> (bool \<times> 's) option) \<Rightarrow> u32 \<Rightarrow> u32 \<Rightarrow> 's
     \<Rightarrow> 's option" where
  "alloc_loop chans numAudioIn numAudioOut f indx ondx s =
     (if ondx < chans then
        (case f indx ondx s of
           None \<Rightarrow> None
         | Some (ok, s') \<Rightarrow>
             if \<not> ok then Some s'
             else alloc_loop chans numAudioIn numAudioOut f
                    ((indx + numAudioIn) mod chans) (ondx + numAudioOut) s')
      else Some s)"

definition AllocateChannelsToProcessors ::
  "u32 \<Rightarrow> u32 \<Rightarrow> u32 \<Rightarrow> (u32 \<Rightarrow> u32 \<Rightarrow> 's \<Rightarrow> (bool \<times> 's) option) \<Rightarrow> 's \<Rightarrow> 's option" where
  "AllocateChannelsToProcessors chans numAudioIn numAudioOut f s =
     alloc_loop chans numAudioIn numAudioOut f 0 0 s"

subsection \<open>AddTrack\<close>

text \<open>The lambda of \<^verbatim>\<open>AddTrack\<close>; it ignores both offsets.\<close>

definition AddTrack_callback ::
  "('c, 'o, 'i, 'a) EffectPlugin \<Rightarrow> u32 \<Rightarrow> real \<Rightarrow> u32 \<Rightarrow> u32 \<Rightarrow>
   'i \<times> ('c, 'o, 'i, 'w) RealtimeEffectState \<Rightarrow>
   (bool \<times> 'i \<times> ('c, 'o, 'i, 'w) RealtimeEffectState) option" where
  "AddTrack_callback P numAudioIn sampleRate indx ondx s =
     (let st = snd s;
          r = RealtimeAddProcessor P (settings (mWorkerSettings st)) (mOutputs st)
                numAudioIn sampleRate (fst s)
      in if fst r
         then Some (True, (snd r, st\<lparr>mCurrentProcessor := mCurrentProcessor st + 1\<rparr>))
         else Some (False, (snd r, st)))"

text \<open>
  \<^verbatim>\<open>AddTrack\<close> returns whether it returned an instance, and the state; \<open>None\<close>
  when the allocation loop does not return.
\<close>

definition AddTrack ::
  "('c, 'o, 'i, 'a) EffectPlugin \<Rightarrow> nat \<Rightarrow> u32 \<Rightarrow> real \<Rightarrow> ('c, 'o, 'i, 'w) RealtimeEffectState
     \<Rightarrow> (bool \<times> ('c, 'o, 'i, 'w) RealtimeEffectState) option" where
  "AddTrack P track chans sampleRate st =
     (case EnsureInstance P sampleRate st of
        (None, st1) \<Rightarrow> Some (False, st1)
      | (Some i, st1) \<Rightarrow>
          if \<not> mPlugin st1 then Some (False, st1)
          else
            (let first = mCurrentProcessor st1;
                 numAudioIn = GetAudioInCount P i;
                 numAudioOut = GetAudioOutCount P i
             in case AllocateChannelsToProcessors chans numAudioIn numAudioOut
                       (AddTrack_callback P numAudioIn sampleRate) (i, st1) of
                  None \<Rightarrow> None
                | Some (i', st2) \<Rightarrow>
                    if mCurrentProcessor st2 > first
                    then Some (True, st2\<lparr>mwInstance := Some i',
                                 mGroups := (mGroups st2)(track \<mapsto> (first, sampleRate))\<rparr>)
                    else Some (False, st2\<lparr>mwInstance := map_option (\<lambda>_. i') (mwInstance st)\<rparr>)))"

subsection \<open>ProcessStart\<close>

text \<open>
  \<^verbatim>\<open>ProcessStart\<close> returns its result and the state. Reading the channel leaves the
  channel as it is (sequentially), so only the worker settings change there.
  \<open>ProcessStart_rest\<close> is the function from the test of \<^verbatim>\<open>!pInstance || !active\<close> on.
\<close>

definition ProcessStart_rest ::
  "('c, 'o, 'i, 'a) EffectPlugin \<Rightarrow> bool \<Rightarrow> ('c, 'o, 'i, 'w::len) RealtimeEffectState
     \<Rightarrow> bool \<times> ('c, 'o, 'i, 'w) RealtimeEffectState" where
  "ProcessStart_rest P active st =
     (case mwInstance st of
        None \<Rightarrow> (False, st)
      | Some i \<Rightarrow>
          if \<not> active then (False, st)
          else (let r = RealtimeProcessStart P (settings (mWorkerSettings st)) i
                in (fst r, st\<lparr>mwInstance := Some (snd r)\<rparr>)))"

definition ProcessStart ::
  "('c, 'o, 'i, 'a) EffectPlugin \<Rightarrow> bool \<Rightarrow> ('c, 'o, 'i, 'w::len) RealtimeEffectState
     \<Rightarrow> bool \<times> ('c, 'o, 'i, 'w) RealtimeEffectState" where
  "ProcessStart P running st =
     (let st1 = (case mpAccessState st of
                   None \<Rightarrow> st
                 | Some pAccessState \<Rightarrow> WorkerRead P pAccessState st);
          active = (IsActive st1 \<and> running)
      in if active \<noteq> mLastActive st1 then
           (case mwInstance st1 of
              None \<Rightarrow> ProcessStart_rest P active (st1\<lparr>mLastActive := active\<rparr>)
            | Some i \<Rightarrow>
                (let r = (if active then RealtimeResume P i else RealtimeSuspend P i)
                 in if \<not> fst r then (False, st1\<lparr>mwInstance := Some (snd r)\<rparr>)
                    else ProcessStart_rest P active
                           (st1\<lparr>mwInstance := Some (snd r), mLastActive := active\<rparr>)))
         else ProcessStart_rest P active st1)"

subsection \<open>Process\<close>

text \<open>
  \<^verbatim>\<open>memcpy(dst, src, n)\<close> on the store of samples: \<open>n\<close> bytes are
  \<open>n div sizeof(float)\<close> whole samples. The regions must not overlap in C; the model
  reads the source in the store as it was before the call.
\<close>

definition memcpy :: "'a memory \<Rightarrow> ptr \<Rightarrow> ptr \<Rightarrow> size_t \<Rightarrow> 'a memory" where
  "memcpy m dst src n =
     (\<lambda>a. if dst \<le> a \<and> a < dst + unat n div 4 then m (src + (a - dst)) else m a)"

text \<open>
  Modelled from the spec: \<^verbatim>\<open>SampleCount.h\<close> is not among the sources. The spec says
  that the amount of the running total that is covered by the outstanding latency is
  taken from both: the smaller of the two.
\<close>

definition limitSampleBufferSize :: "size_t \<Rightarrow> size_t \<Rightarrow> size_t" where
  "limitSampleBufferSize bufferSize limit = min bufferSize limit"

text \<open>
  What the lambda of \<^verbatim>\<open>Process\<close> captures by reference and changes: the two
  arrays of pointers, \<open>len\<close>, \<open>processor\<close>, \<open>mLatency\<close>, and, behind the
  instance pointer and the buffers, the instance and the store.
\<close>

record ('i, 'a) process_locals =
  clientIn :: "ptr list"
  clientOut :: "ptr list"
  len :: size_t
  processor :: size_t
  latency :: "size_t option"
  inst :: 'i
  store :: "'a memory"

text \<open>The \<^verbatim>\<open>while\<close> loop that re-uses input channels from the beginning.\<close>

partial_function (option) fill_inputs ::
  "u32 \<Rightarrow> u32 \<Rightarrow> ptr list \<Rightarrow> u32 \<Rightarrow> ptr list \<Rightarrow> ptr list option" where
  "fill_inputs chans numAudioIn inbuf copied cin =
     (let need = numAudioIn - copied in
      if need \<noteq> 0 then
        (let moreCopied = min chans need in
         fill_inputs chans numAudioIn inbuf (copied + moreCopied)
           (cin @ take (unat moreCopied) inbuf))
      else Some cin)"

definition advance :: "size_t \<Rightarrow> ptr \<Rightarrow> ptr" where
  "advance cnt p = (if p \<noteq> 0 then p + unat cnt else p)"

text \<open>
  The inner loop over blocks: its body, for a block of \<open>cnt\<close> samples, and the loop.
\<close>

definition block_body ::
  "('c, 'o, 'i, 'a) EffectPlugin \<Rightarrow> 'c EffectSettings \<Rightarrow> real \<Rightarrow> u32 \<Rightarrow> size_t
     \<Rightarrow> ('i, 'a) process_locals \<Rightarrow> ('i, 'a) process_locals" where
  "block_body P ws rate ondx cnt L =
     (let r = RealtimeProcess P (processor L) ws (clientIn L) (clientOut L) cnt
                (store L) (inst L);
          processed = fst r;
          L1 = L\<lparr>store := fst (snd r), inst := snd (snd r)\<rparr>;
          lat = (case latency L1 of
                   None \<Rightarrow> GetLatency P ws rate (inst L1)
                 | Some l \<Rightarrow> l);
          L2 = L1\<lparr>latency := Some lat,
                  clientIn := map (advance cnt) (clientIn L1),
                  clientOut := map (advance cnt) (clientOut L1)\<rparr>
      in if ondx = 0 then
           (let len1 = len L2 + processed;
                discard = limitSampleBufferSize len1 lat
            in L2\<lparr>len := len1 - discard, latency := Some (lat - discard)\<rparr>)
         else L2)"

partial_function (option) block_loop ::
  "('c, 'o, 'i, 'a) EffectPlugin \<Rightarrow> 'c EffectSettings \<Rightarrow> real \<Rightarrow> u32 \<Rightarrow> size_t \<Rightarrow> size_t
     \<Rightarrow> size_t \<Rightarrow> ('i, 'a) process_locals \<Rightarrow> ('i, 'a) process_locals option" where
  "block_loop P ws rate ondx numSamples blockSize block L =
     (if block < numSamples then
        block_loop P ws rate ondx numSamples blockSize (block + blockSize)
          (block_body P ws rate ondx (min (numSamples - block) blockSize) L)
      else Some L)"

text \<open>The lambda of \<^verbatim>\<open>Process\<close>.\<close>

definition Process_callback ::
  "('c, 'o, 'i, 'a) EffectPlugin \<Rightarrow> 'c EffectSettings \<Rightarrow> real \<Rightarrow> u32 \<Rightarrow> ptr list \<Rightarrow> ptr list
     \<Rightarrow> size_t \<Rightarrow> u32 \<Rightarrow> u32 \<Rightarrow> u32 \<Rightarrow> u32 \<Rightarrow> ('i, 'a) process_locals
     \<Rightarrow> (bool \<times> ('i, 'a) process_locals) option" where
  "Process_callback P ws rate chans inbuf outbuf numSamples numAudioIn numAudioOut indx ondx L =
     (let copied = min (chans - indx) numAudioIn in
      case fill_inputs chans numAudioIn inbuf copied
             (take (unat copied) (drop (unat indx) inbuf)) of
        None \<Rightarrow> None
      | Some cin \<Rightarrow>
          (let copiedOut = min (chans - ondx) numAudioOut;
               cout = take (unat copiedOut) (drop (unat ondx) outbuf)
                        @ replicate (unat numAudioOut - unat copiedOut) 0;
               blockSize = GetBlockSize P (inst L)
           in case block_loop P ws rate ondx numSamples blockSize 0
                     (L\<lparr>clientIn := cin, clientOut := cout\<rparr>) of
                None \<Rightarrow> None
              | Some L' \<Rightarrow> Some (True, L'\<lparr>processor := processor L' + 1\<rparr>)))"

text \<open>
  \<^verbatim>\<open>Process\<close> returns the number of discardable samples, the state and the store;
  \<open>None\<close> when one of its loops does not return. The test
  \<^verbatim>\<open>!mPlugin || !pInstance || !mLastActive\<close> is the first \<open>case\<close>.
  \<^verbatim>\<open>mGroups[&track]\<close> makes an entry \<open>(0, 0)\<close> for a track that has none
  (\<open>group_entry\<close>) and leaves an entry that is there. The two arrays that
  \<^verbatim>\<open>alloca\<close> gives are written before they are read (\<open>Process_locals\<close> are the
  captured variables as they are before the allocation loop).
\<close>

definition group_entry :: "('c, 'o, 'i, 'w) RealtimeEffectState \<Rightarrow> nat \<Rightarrow> size_t \<times> real" where
  "group_entry st track = (case mGroups st track of None \<Rightarrow> (0, 0) | Some g \<Rightarrow> g)"

definition Process_locals ::
  "('c, 'o, 'i, 'a) EffectPlugin \<Rightarrow> ('c, 'o, 'i, 'w) RealtimeEffectState \<Rightarrow> nat \<Rightarrow> 'i \<Rightarrow> 'a memory
     \<Rightarrow> ('i, 'a) process_locals" where
  "Process_locals P st track i m =
     \<lparr>clientIn = replicate (unat (GetAudioInCount P i)) 0,
      clientOut = replicate (unat (GetAudioOutCount P i)) 0,
      len = 0, processor = fst (group_entry st track), latency = mLatency st,
      inst = i, store = m\<rparr>"

definition Process ::
  "('c, 'o, 'i, 'a) EffectPlugin \<Rightarrow> nat \<Rightarrow> u32 \<Rightarrow> ptr list \<Rightarrow> ptr list \<Rightarrow> size_t
     \<Rightarrow> ('c, 'o, 'i, 'w) RealtimeEffectState \<times> 'a memory
     \<Rightarrow> (size_t \<times> ('c, 'o, 'i, 'w) RealtimeEffectState \<times> 'a memory) option" where
  "Process P track chans inbuf outbuf numSamples sm =
     (let st = fst sm; m = snd sm in
      case (if \<not> mPlugin st \<or> \<not> mLastActive st then None else mwInstance st) of
        None \<Rightarrow>
          Some (0, st,
                fold (\<lambda>ii m'. memcpy m' (outbuf ! ii) (inbuf ! ii) (numSamples * 4))
                  [0..<unat chans] m)
      | Some i \<Rightarrow>
          (let numAudioIn = GetAudioInCount P i;
               numAudioOut = GetAudioOutCount P i;
               pair = group_entry st track
           in case AllocateChannelsToProcessors chans numAudioIn numAudioOut
                     (Process_callback P (settings (mWorkerSettings st)) (snd pair) chans
                        inbuf outbuf numSamples numAudioIn numAudioOut)
                     (Process_locals P st track i m) of
                None \<Rightarrow> None
              | Some L \<Rightarrow>
                  Some (numSamples - len L,
                        st\<lparr>mGroups := (mGroups st)(track \<mapsto> pair), mLatency := latency L,
                           mwInstance := Some (inst L)\<rparr>,
                        store L)))"

subsection \<open>Finalize\<close>


section \<open>Observing the calls\<close>

text \<open>
  To speak about the calls a loop makes, the callback is run under \<open>tracing\<close>, which
  records each call (input offset, output offset, result) and otherwise leaves the
  callback as it is.
\<close>

type_synonym call = "u32 \<times> u32 \<times> bool"

definition call_pair :: "call \<Rightarrow> u32 \<times> u32" where
  "call_pair c = (fst c, fst (snd c))"

definition call_ok :: "call \<Rightarrow> bool" where
  "call_ok c = snd (snd c)"

definition tracing ::
  "(u32 \<Rightarrow> u32 \<Rightarrow> 's \<Rightarrow> (bool \<times> 's) option) \<Rightarrow> u32 \<Rightarrow> u32 \<Rightarrow> call list \<times> 's
     \<Rightarrow> (bool \<times> call list \<times> 's) option" where
  "tracing f indx ondx ls =
     (case f indx ondx (snd ls) of
        None \<Rightarrow> None
      | Some (ok, s') \<Rightarrow> Some (ok, (fst ls @ [(indx, ondx, ok)], s')))"

text \<open>
  The offsets as the specification describes them: the output offset of call \<open>k\<close> is
  \<open>k\<close> times the output arity, the input offset starts at 0 and advances by the input
  arity, reduced modulo the channel count. These are the numbers of the specification,
  natural numbers that do not wrap around.
\<close>

primrec inputOffset :: "nat \<Rightarrow> nat \<Rightarrow> nat \<Rightarrow> nat" where
  "inputOffset chans inputArity 0 = 0"
| "inputOffset chans inputArity (Suc k) = (inputOffset chans inputArity k + inputArity) mod chans"

definition outputOffset :: "nat \<Rightarrow> nat \<Rightarrow> nat" where
  "outputOffset outputArity k = k * outputArity"

text \<open>
  What the specification says of the calls \<open>cs\<close> of one run of the allocator: call
  \<open>k\<close> has the input and output offsets above, its output offset is below the
  channel count, only the last call may have returned false, and a run that was not stopped
  by the callback has used up the output offsets below the channel count.
\<close>

definition calls_as_specified :: "u32 \<Rightarrow> u32 \<Rightarrow> u32 \<Rightarrow> call list \<Rightarrow> bool" where
  "calls_as_specified chans inputArity outputArity cs \<longleftrightarrow>
     (\<forall>k<length cs. unat (fst (call_pair (cs ! k))) = inputOffset (unat chans) (unat inputArity) k
          \<and> unat (snd (call_pair (cs ! k))) = outputOffset (unat outputArity) k
          \<and> outputOffset (unat outputArity) k < unat chans)
   \<and> (\<forall>k<length cs. \<not> call_ok (cs ! k) \<longrightarrow> Suc k = length cs)
   \<and> ((cs = [] \<or> call_ok (last cs)) \<longrightarrow> \<not> outputOffset (unat outputArity) (length cs) < unat chans)"

text \<open>
  The offsets as the loop computes them, in \<^verbatim>\<open>unsigned\<close> arithmetic and started at
  any offsets; used for the loop invariant.
\<close>

fun offsets_from :: "u32 \<Rightarrow> u32 \<Rightarrow> u32 \<Rightarrow> nat \<Rightarrow> u32" where
  "offsets_from chans nin indx 0 = indx"
| "offsets_from chans nin indx (Suc k) = offsets_from chans nin ((indx + nin) mod chans) k"

definition trace_ok :: "u32 \<Rightarrow> u32 \<Rightarrow> u32 \<Rightarrow> u32 \<Rightarrow> u32 \<Rightarrow> call list \<Rightarrow> bool" where
  "trace_ok chans nin nout indx ondx ext \<longleftrightarrow>
     (\<forall>k<length ext. call_pair (ext ! k) = (offsets_from chans nin indx k, ondx + of_nat k * nout)
          \<and> ondx + of_nat k * nout < chans)
   \<and> (\<forall>k<length ext. \<not> call_ok (ext ! k) \<longrightarrow> Suc k = length ext)
   \<and> ((ext = [] \<or> call_ok (last ext)) \<longrightarrow> \<not> ondx + of_nat (length ext) * nout < chans)"

section \<open>The two traversals, and sequences of Process calls\<close>

text \<open>
  The calls that the allocator makes at each of its two call sites: the call of
  \<^verbatim>\<open>AddTrack\<close>, for the instance and state that \<^verbatim>\<open>EnsureInstance\<close> gave, and
  the call of \<^verbatim>\<open>Process\<close> on its processing path, for the live instance \<open>i\<close>.
\<close>

definition AddTrack_traversal ::
  "('c, 'o, 'i, 'a) EffectPlugin \<Rightarrow> u32 \<Rightarrow> real \<Rightarrow> 'i \<Rightarrow> ('c, 'o, 'i, 'w) RealtimeEffectState
     \<Rightarrow> call list option" where
  "AddTrack_traversal P chans sampleRate i st1 =
     map_option fst
       (AllocateChannelsToProcessors chans (GetAudioInCount P i) (GetAudioOutCount P i)
          (tracing (AddTrack_callback P (GetAudioInCount P i) sampleRate)) ([], (i, st1)))"

definition Process_traversal ::
  "('c, 'o, 'i, 'a) EffectPlugin \<Rightarrow> nat \<Rightarrow> u32 \<Rightarrow> ptr list \<Rightarrow> ptr list \<Rightarrow> size_t
     \<Rightarrow> 'i \<Rightarrow> ('c, 'o, 'i, 'w) RealtimeEffectState \<Rightarrow> 'a memory \<Rightarrow> call list option" where
  "Process_traversal P track chans inbuf outbuf numSamples i st m =
     map_option fst
       (AllocateChannelsToProcessors chans (GetAudioInCount P i) (GetAudioOutCount P i)
          (tracing (Process_callback P (settings (mWorkerSettings st))
                      (snd (group_entry st track)) chans inbuf outbuf numSamples
                      (GetAudioInCount P i) (GetAudioOutCount P i)))
          ([], Process_locals P st track i m))"

text \<open>
  The calls that the allocator makes in one call of \<^verbatim>\<open>AddTrack\<close> and in one call
  of \<^verbatim>\<open>Process\<close>: those of the traversal, for the instance that the function has
  found, and none when the function returns before it comes to its traversal.
\<close>

definition AddTrack_visits ::
  "('c, 'o, 'i, 'a) EffectPlugin \<Rightarrow> u32 \<Rightarrow> real \<Rightarrow> ('c, 'o, 'i, 'w) RealtimeEffectState
     \<Rightarrow> call list option" where
  "AddTrack_visits P chans sampleRate st =
     (case EnsureInstance P sampleRate st of
        (None, st1) \<Rightarrow> Some []
      | (Some i, st1) \<Rightarrow>
          if \<not> mPlugin st1 then Some [] else AddTrack_traversal P chans sampleRate i st1)"

definition Process_visits ::
  "('c, 'o, 'i, 'a) EffectPlugin \<Rightarrow> nat \<Rightarrow> u32 \<Rightarrow> ptr list \<Rightarrow> ptr list \<Rightarrow> size_t
     \<Rightarrow> ('c, 'o, 'i, 'w) RealtimeEffectState \<times> 'a memory \<Rightarrow> call list option" where
  "Process_visits P track chans inbuf outbuf numSamples sm =
     (case (if \<not> mPlugin (fst sm) \<or> \<not> mLastActive (fst sm) then None else mwInstance (fst sm)) of
        None \<Rightarrow> Some []
      | Some i \<Rightarrow> Process_traversal P track chans inbuf outbuf numSamples i (fst sm) (snd sm))"









text \<open>
  The store after the first \<open>j\<close> channels have been copied: those output buffers hold
  the input, and everything outside them is as before.
\<close>

definition copied_upto ::
  "'a memory \<Rightarrow> 'a memory \<Rightarrow> ptr list \<Rightarrow> ptr list \<Rightarrow> nat \<Rightarrow> nat \<Rightarrow> bool" where
  "copied_upto m0 m inbuf outbuf n j \<longleftrightarrow>
     (\<forall>ii<j. \<forall>k<n. m (outbuf ! ii + k) = m0 (inbuf ! ii + k))
   \<and> (\<forall>a. (\<forall>ii<j. a < outbuf ! ii \<or> outbuf ! ii + n \<le> a) \<longrightarrow> m a = m0 a)"

section \<open>The computed activity, and a sample plugin for concrete runs\<close>

text \<open>
  The activity that \<^verbatim>\<open>ProcessStart\<close> computes: the active flag of the worker
  settings, after the channel has been read, and the \<open>running\<close> flag.
\<close>

definition computed_activity ::
  "('c, 'o, 'i, 'a) EffectPlugin \<Rightarrow> bool \<Rightarrow> ('c, 'o, 'i, 'w::len) RealtimeEffectState \<Rightarrow> bool" where
  "computed_activity P running st \<longleftrightarrow>
     mActive (extra (settings (mWorkerSettings
       (case mpAccessState st of None \<Rightarrow> st | Some acc \<Rightarrow> WorkerRead P acc st)))) \<and> running"

text \<open>The hooks of an instance, to name them in a record of the calls it has seen.\<close>

datatype hook =
  InitializeHook | AddProcessorHook | SuspendHook | ResumeHook | ProcessStartHook
  | ProcessHook | FinalizeHook

definition suspend_resume :: "hook list \<Rightarrow> hook list" where
  "suspend_resume hs = filter (\<lambda>h. h = SuspendHook \<or> h = ResumeHook) hs"

text \<open>
  A sample plugin, for concrete runs. The state of its instance is the list of the hooks
  called so far. It has the given arities, block size and latency, accepts \<open>accept\<close>
  processors and declines further ones, and its suspend, resume and finalize hooks all
  return \<open>ok\<close>. \<^verbatim>\<open>RealtimeProcess\<close> leaves the store alone and reports all
  samples as processed.
\<close>

definition sample_plugin ::
  "u32 \<Rightarrow> u32 \<Rightarrow> size_t \<Rightarrow> size_t \<Rightarrow> nat \<Rightarrow> bool \<Rightarrow> ('c, 'o, hook list, 'a) EffectPlugin" where
  "sample_plugin nin nout blockSize lat accept ok =
     \<lparr>MakeInstance = Some [],
      CopySettingsContents = (\<lambda>src dst. dst\<lparr>any_value := any_value src\<rparr>),
      GetAudioInCount = (\<lambda>_. nin),
      GetAudioOutCount = (\<lambda>_. nout),
      GetBlockSize = (\<lambda>_. blockSize),
      SetBlockSize = (\<lambda>_ i. i),
      RealtimeInitialize = (\<lambda>_ _ i. (True, i @ [InitializeHook])),
      RealtimeAddProcessor =
        (\<lambda>_ _ _ _ i. (count_list i AddProcessorHook < accept, i @ [AddProcessorHook])),
      RealtimeSuspend = (\<lambda>i. (ok, i @ [SuspendHook])),
      RealtimeResume = (\<lambda>i. (ok, i @ [ResumeHook])),
      RealtimeProcessStart = (\<lambda>_ i. (True, i @ [ProcessStartHook])),
      RealtimeProcess = (\<lambda>_ _ _ _ cnt m i. (cnt, m, i @ [ProcessHook])),
      GetLatency = (\<lambda>_ _ _. lat),
      RealtimeFinalize = (\<lambda>_ i. (ok, i @ [FinalizeHook]))\<rparr>"

text \<open>
  The state as the constructor leaves it when it has found a plugin: main settings made by
  the plugin (here with content \<open>c\<close>) with the activation they had before, no
  instance, nothing initialized. The constructor assigns nothing to the worker settings, so
  they are as default-constructed: empty, with the activation flag at the default
  \<open>active\<close> of its class, which is also what the main settings had before.
\<close>

definition constructed :: "'c \<Rightarrow> bool \<Rightarrow> ('c, 'o, 'i, 'w::len) RealtimeEffectState" where
  "constructed c active =
     \<lparr>mPlugin = True, mwInstance = None, mInitialized = False, mLastActive = False,
      mCurrentProcessor = 0, mGroups = Map.empty, mLatency = None,
      mMainSettings = \<lparr>settings = \<lparr>any_value = Some c, extra = \<lparr>mActive = active\<rparr>\<rparr>, counter = 0\<rparr>,
      mWorkerSettings = \<lparr>settings = \<lparr>any_value = None, extra = \<lparr>mActive = active\<rparr>\<rparr>, counter = 0\<rparr>,
      mOutputs = None, mpAccessState = None\<rparr>"

text \<open>
  Concrete instances for the runs below: a freshly constructed state whose settings are
  active, and plugins with one input and one output that accept \<open>n\<close> processors.
\<close>

definition fresh_state :: "(unit, unit, hook list, 8) RealtimeEffectState" where
  "fresh_state = constructed () True"

definition accepting :: "nat \<Rightarrow> (unit, unit, hook list, real) EffectPlugin" where
  "accepting n = sample_plugin 1 1 512 0 n True"

definition failing_hooks :: "(unit, unit, hook list, real) EffectPlugin" where
  "failing_hooks = sample_plugin 1 1 512 0 1 False"

text \<open>
  An access state whose channel holds revision 3 in one cell and revision 4, written
  last, in the other; and a state in which the instance is alive and the worker settings
  are active.
\<close>

definition revision :: "nat \<Rightarrow> (unit, 8) SettingsAndCounter" where
  "revision n = \<lparr>settings = \<lparr>any_value = Some (), extra = \<lparr>mActive = True\<rparr>\<rparr>, counter = of_nat n\<rparr>"

definition sample_access :: "(unit, 8) AccessState" where
  "sample_access =
     \<lparr>mChannelFromMain = \<lparr>mSlot0 = \<lparr>mSettings = revision 3\<rparr>, mSlot1 = \<lparr>mSettings = revision 4\<rparr>,
                          mLastWrittenSlot = 1\<rparr>,
      mCounter = 0, mLastSettings = revision 4\<rparr>"

definition live_state :: "(unit, unit, hook list, 8) RealtimeEffectState" where
  "live_state = fresh_state\<lparr>mwInstance := Some [], mInitialized := True,
                             mWorkerSettings := mMainSettings fresh_state\<rparr>"

text \<open>
  A state on the processing path, a plugin with block size 2 that reports a latency of 3
  samples, and plugins with two inputs and one output that accept \<open>n\<close> processors.
\<close>

definition active_state :: "(unit, unit, hook list, 8) RealtimeEffectState" where
  "active_state = live_state\<lparr>mLastActive := True\<rparr>"

definition delaying :: "(unit, unit, hook list, real) EffectPlugin" where
  "delaying = sample_plugin 1 1 2 3 1 True"

definition two_in_one_out :: "nat \<Rightarrow> (unit, unit, hook list, real) EffectPlugin" where
  "two_in_one_out n = sample_plugin 2 1 512 0 n True"

text \<open>
  \<^verbatim>\<open>GetAccess\<close>, on a state whose plugin has been looked up: when there is a
  plugin and the settings have a value, the access state is made, once, by \<^verbatim>\<open>AccessState::Initialize\<close>, which resets the counter of
  the main settings and seeds the channel with two copies of them.
\<close>

definition GetAccess ::
  "('c, 'o, 'i, 'w::len) RealtimeEffectState \<Rightarrow> ('c, 'o, 'i, 'w) RealtimeEffectState" where
  "GetAccess st =
     (if \<not> mPlugin st \<or> \<not> has_value (settings (mMainSettings st)) then st
      else case mpAccessState st of
        Some _ \<Rightarrow> st
      | None \<Rightarrow>
          (let main = (mMainSettings st)\<lparr>counter := 0\<rparr>;
               b0 = \<lparr>mSlot0 = \<lparr>mSettings = main\<rparr>, mSlot1 = \<lparr>mSettings = main\<rparr>,
                     mLastWrittenSlot = 0\<rparr>;
               b1 = MessageBuffer_Write b0 FromMainSlot_assign main;
               b2 = MessageBuffer_Write b1 FromMainSlot_assign main
           in st\<lparr>mMainSettings := main,
                 mpAccessState := Some \<lparr>mChannelFromMain = b2, mCounter = 0, mLastSettings = main\<rparr>\<rparr>))"

text \<open>
  The state after \<open>n\<close> calls of \<^verbatim>\<open>Set\<close>, with settings that hold a value, on
  a state that has just handed out its handle (with an 8-bit counter); and a state that was
  initialized and whose instance has since expired.
\<close>

definition repeated_Set :: "nat \<Rightarrow> (unit, unit, hook list, 8) RealtimeEffectState option" where
  "repeated_Set n =
     (Access_Set \<lparr>any_value = Some (), extra = \<lparr>mActive = True\<rparr>\<rparr> ^^ n) (Some (GetAccess fresh_state))"

definition expired_state :: "(unit, unit, hook list, 8) RealtimeEffectState" where
  "expired_state = live_state\<lparr>mwInstance := None\<rparr>"


section \<open>The channel allocator: its calls\<close>

lemma offsets_from_Suc:
  "offsets_from chans nin indx (Suc k) = (offsets_from chans nin indx k + nin) mod chans"
  by (induction k arbitrary: indx) simp_all

lemma trace_ok_Nil: "\<not> ondx < chans \<Longrightarrow> trace_ok chans nin nout indx ondx []"
  by (simp add: trace_ok_def)

lemma trace_ok_stop:
  "ondx < chans \<Longrightarrow> trace_ok chans nin nout indx ondx [(indx, ondx, False)]"
  by (simp add: trace_ok_def call_pair_def call_ok_def)

lemma trace_ok_Cons:
  assumes "ondx < chans"
    and "trace_ok chans nin nout ((indx + nin) mod chans) (ondx + nout) ext"
  shows "trace_ok chans nin nout indx ondx ((indx, ondx, True) # ext)"
  unfolding trace_ok_def
proof (intro conjI allI impI)
  fix k assume k: "k < length ((indx, ondx, True) # ext)"
  show "call_pair (((indx, ondx, True) # ext) ! k)
          = (offsets_from chans nin indx k, ondx + of_nat k * nout)"
  proof (cases k)
    case 0 then show ?thesis by (simp add: call_pair_def)
  next
    case (Suc j)
    with k assms(2) show ?thesis
      by (simp add: trace_ok_def algebra_simps)
  qed
  show "ondx + of_nat k * nout < chans"
  proof (cases k)
    case 0 with assms(1) show ?thesis by simp
  next
    case (Suc j)
    with k assms(2) show ?thesis
      by (simp add: trace_ok_def algebra_simps)
  qed
next
  fix k assume k: "k < length ((indx, ondx, True) # ext)"
    and n: "\<not> call_ok (((indx, ondx, True) # ext) ! k)"
  show "Suc k = length ((indx, ondx, True) # ext)"
  proof (cases k)
    case 0 with n show ?thesis by (simp add: call_ok_def)
  next
    case (Suc j)
    with k n assms(2) show ?thesis
      by (simp add: trace_ok_def)
  qed
next
  assume a: "(indx, ondx, True) # ext = [] \<or> call_ok (last ((indx, ondx, True) # ext))"
  show "\<not> ondx + of_nat (length ((indx, ondx, True) # ext)) * nout < chans"
  proof (cases "ext = []")
    case True
    with assms(2) show ?thesis by (simp add: trace_ok_def)
  next
    case False
    with a assms(2) show ?thesis by (simp add: trace_ok_def algebra_simps)
  qed
qed

lemma alloc_loop_trace:
  assumes run: "alloc_loop chans nin nout (tracing f) indx ondx ls = Some ls'"
  shows "\<exists>ext. fst ls' = fst ls @ ext \<and> trace_ok chans nin nout indx ondx ext"
proof -
  let ?P = "\<lambda>chans nin nout g indx ondx ls ls'. g = tracing f \<longrightarrow>
     (\<exists>ext. fst ls' = fst ls @ ext \<and> trace_ok chans nin nout indx ondx ext)"
  have "?P chans nin nout (tracing f) indx ondx ls ls'"
  proof (rule alloc_loop.raw_induct[where P = ?P, OF _ run], rule impI)
    fix loop chans nin nout g indx ondx ls ls'
    assume IH: "\<And>chans nin nout g indx ondx ls ls'.
                  loop chans nin nout g indx ondx ls = Some ls'
                    \<Longrightarrow> ?P chans nin nout g indx ondx ls ls'"
      and body: "(if ondx < chans
          then case g indx ondx ls of None \<Rightarrow> None
               | Some (ok, s') \<Rightarrow>
                   if \<not> ok then Some s'
                   else loop chans nin nout g ((indx + nin) mod chans) (ondx + nout) s'
          else Some ls) = Some ls'"
      and g: "g = tracing f"
    show "\<exists>ext. fst ls' = fst ls @ ext \<and> trace_ok chans nin nout indx ondx ext"
    proof (cases "ondx < chans")
      case False
      with body have "ls' = ls" by simp
      with False show ?thesis by (simp add: trace_ok_Nil)
    next
      case True
      with body obtain ok s1 where fs: "f indx ondx (snd ls) = Some (ok, s1)"
        by (auto simp: g tracing_def split: option.splits)
      then have gs: "g indx ondx ls = Some (ok, (fst ls @ [(indx, ondx, ok)], s1))"
        by (simp add: g tracing_def)
      show ?thesis
      proof (cases ok)
        case False
        with True gs body have "ls' = (fst ls @ [(indx, ondx, False)], s1)" by simp
        with True show ?thesis by (simp add: trace_ok_stop)
      next
        case ok: True
        with True gs body
        have "loop chans nin nout g ((indx + nin) mod chans) (ondx + nout)
                (fst ls @ [(indx, ondx, True)], s1) = Some ls'" by simp
        from IH[OF this] g obtain ext where
          e: "fst ls' = (fst ls @ [(indx, ondx, True)]) @ ext"
             "trace_ok chans nin nout ((indx + nin) mod chans) (ondx + nout) ext" by auto
        from trace_ok_Cons[OF True e(2)] e(1) show ?thesis by simp
      qed
    qed
  qed
  then show ?thesis by simp
qed

section \<open>The channel allocator: termination\<close>

lemma unat_ondx_step:
  fixes ondx chans nout :: u32
  assumes "ondx < chans" "unat chans + unat nout \<le> 2 ^ 32"
  shows "unat (ondx + nout) = unat ondx + unat nout"
proof -
  from assms(1) have "unat ondx < unat chans" by (simp add: word_less_nat_alt)
  with assms(2) have "unat ondx + unat nout < 2 ^ 32" by simp
  then show ?thesis by (simp add: unat_add_lem[THEN iffD1])
qed

lemma alloc_loop_rule:
  fixes chans nin nout :: u32
  assumes nout: "0 < nout" and nowrap: "unat chans + unat nout \<le> 2 ^ 32"
    and step: "\<And>indx ondx s. ondx < chans \<Longrightarrow> I ondx s \<Longrightarrow>
                 \<exists>ok s'. f indx ondx s = Some (ok, s') \<and> (if ok then I (ondx + nout) s' else Q s')"
    and fin: "\<And>ondx s. \<not> ondx < chans \<Longrightarrow> I ondx s \<Longrightarrow> Q s"
    and I: "I ondx s"
  shows "\<exists>s'. alloc_loop chans nin nout f indx ondx s = Some s' \<and> Q s'"
  using I
proof (induction "unat chans - unat ondx" arbitrary: indx ondx s rule: less_induct)
  case less
  show ?case
  proof (cases "ondx < chans")
    case False
    with fin[OF False less.prems] show ?thesis
      by (subst alloc_loop.simps) simp
  next
    case True
    from step[OF True less.prems] obtain ok s1 where
      f: "f indx ondx s = Some (ok, s1)" and r: "if ok then I (ondx + nout) s1 else Q s1" by blast
    show ?thesis
    proof (cases ok)
      case False
      with f r True show ?thesis by (subst alloc_loop.simps) simp
    next
      case ok: True
      have u: "unat (ondx + nout) = unat ondx + unat nout"
        by (rule unat_ondx_step[OF True nowrap])
      from nout have "0 < unat nout" by (simp add: word_less_nat_alt)
      moreover from True have "unat ondx < unat chans" by (simp add: word_less_nat_alt)
      ultimately have "unat chans - unat (ondx + nout) < unat chans - unat ondx"
        using u by simp
      from less.hyps[OF this, of s1 "(indx + nin) mod chans"] r ok
      obtain s' where "alloc_loop chans nin nout f ((indx + nin) mod chans) (ondx + nout) s1 = Some s'" "Q s'"
        by auto
      with f ok True show ?thesis by (subst alloc_loop.simps) simp
    qed
  qed
qed

lemma ceil_step:
  fixes c o' n :: nat
  assumes "o' < c" "0 < n"
  shows "Suc ((c - (o' + n) + n - 1) div n) = (c - o' + n - 1) div n"
proof (cases "o' + n \<le> c")
  case True
  have e: "c - o' + n - 1 = (c - (o' + n) + n - 1) + n" using True assms by linarith
  have "(c - o' + n - 1) div n = ((c - (o' + n) + n - 1) + n) div n"
    by (simp only: e)
  also have "\<dots> = Suc ((c - (o' + n) + n - 1) div n)"
    using assms(2) by (simp only: div_add_self2)
  finally show ?thesis by simp
next
  case False
  then have a: "c - (o' + n) + n - 1 = n - 1" by linarith
  have b: "(n - 1) div n = 0" using assms(2) by simp
  from False assms have "n * 1 \<le> c - o' + n - 1" "c - o' + n - 1 < n * Suc 1" by simp_all
  then have "(c - o' + n - 1) div n = 1"
    by (rule div_nat_eqI)
  with a b show ?thesis by (simp only:)
qed

lemma alloc_loop_count:
  fixes chans nin nout :: u32 and f :: "u32 \<Rightarrow> u32 \<Rightarrow> 's \<Rightarrow> (bool \<times> 's) option"
  assumes nout: "0 < nout" and nowrap: "unat chans + unat nout \<le> 2 ^ 32"
    and f: "\<forall>indx ondx s. \<exists>s'. f indx ondx s = Some (True, s')"
  shows "\<exists>cs s'. AllocateChannelsToProcessors chans nin nout (tracing f) ([], s) = Some (cs, s')
           \<and> length cs = (unat chans + unat nout - 1) div unat nout"
proof -
  let ?K = "(unat chans + unat nout - 1) div unat nout"
  let ?I = "\<lambda>ondx (ls :: call list \<times> 's).
              length (fst ls) + (unat chans - unat ondx + unat nout - 1) div unat nout = ?K"
  let ?Q = "\<lambda>(ls :: call list \<times> 's). length (fst ls) = ?K"
  from nout have n0: "0 < unat nout" by (simp add: word_less_nat_alt)
  have "\<exists>ls'. alloc_loop chans nin nout (tracing f) 0 0 ([], s) = Some ls' \<and> ?Q ls'"
  proof (rule alloc_loop_rule[where I = ?I and Q = ?Q, OF nout nowrap])
    fix indx ondx :: u32 and ls :: "call list \<times> 's"
    assume lt: "ondx < chans" and I: "?I ondx ls"
    from f obtain s' where fs: "f indx ondx (snd ls) = Some (True, s')" by blast
    from lt have l: "unat ondx < unat chans" by (simp add: word_less_nat_alt)
    have u: "unat (ondx + nout) = unat ondx + unat nout"
      by (rule unat_ondx_step[OF lt nowrap])
    have "Suc ((unat chans - (unat ondx + unat nout) + unat nout - 1) div unat nout)
            = (unat chans - unat ondx + unat nout - 1) div unat nout"
      by (rule ceil_step[OF l n0])
    with I u have "?I (ondx + nout) (fst ls @ [(indx, ondx, True)], s')" by simp
    with fs show "\<exists>ok s'. tracing f indx ondx ls = Some (ok, s')
                    \<and> (if ok then ?I (ondx + nout) s' else ?Q s')"
      by (intro exI[of _ True] exI[of _ "(fst ls @ [(indx, ondx, True)], s')"])
         (simp add: tracing_def)
  next
    fix ondx :: u32 and ls :: "call list \<times> 's"
    assume ge: "\<not> ondx < chans" and I: "?I ondx ls"
    from ge have "unat chans - unat ondx = 0" by (simp add: word_less_nat_alt)
    with I n0 show "?Q ls" by simp
  next
    show "?I 0 ([], s)" by simp
  qed
  then show ?thesis by (auto simp: AllocateChannelsToProcessors_def)
qed

lemma alloc_loop_returns:
  fixes chans nin nout :: u32
  assumes nout: "0 < nout" and nowrap: "unat chans + unat nout \<le> 2 ^ 32"
    and f: "\<forall>indx ondx s. f indx ondx s \<noteq> None"
  shows "\<exists>s'. AllocateChannelsToProcessors chans nin nout f s = Some s'"
proof -
  have "\<exists>s'. alloc_loop chans nin nout f 0 0 s = Some s' \<and> True"
  proof (rule alloc_loop_rule[where I = "\<lambda>_ _. True" and Q = "\<lambda>_. True", OF nout nowrap])
    fix indx ondx s
    from f obtain r where "f indx ondx s = Some r" by blast
    then show "\<exists>ok s'. f indx ondx s = Some (ok, s') \<and> (if ok then True else True)"
      by (cases r) simp
  qed simp_all
  then show ?thesis by (simp add: AllocateChannelsToProcessors_def)
qed

text \<open>A set of loop states that the loop does not leave: the loop does not return.\<close>

lemma alloc_loop_diverges:
  assumes inv: "\<And>indx ondx s. ondx \<in> B \<Longrightarrow>
                  ondx < chans \<and> ondx + nout \<in> B \<and> (\<exists>s'. f indx ondx s = Some (True, s'))"
    and start: "ondx \<in> B"
  shows "alloc_loop chans nin nout f indx ondx s = None"
proof (rule ccontr)
  assume "alloc_loop chans nin nout f indx ondx s \<noteq> None"
  then obtain y where run: "alloc_loop chans nin nout f indx ondx s = Some y" by blast
  let ?P = "\<lambda>chans' nin' nout' f' (indx :: u32) ondx (s :: 'a) (y :: 'a).
              chans' = chans \<longrightarrow> nout' = nout \<longrightarrow> f' = f \<longrightarrow> ondx \<notin> B"
  have "?P chans nin nout f indx ondx s y"
  proof (rule alloc_loop.raw_induct[where P = ?P, OF _ run], intro impI)
    fix loop chans' nin' nout' f' and indx ondx :: u32 and s y :: 'a
    assume IH: "\<And>chans' nin' nout' f' indx ondx s y.
                  loop chans' nin' nout' f' indx ondx s = Some y \<Longrightarrow> ?P chans' nin' nout' f' indx ondx s y"
      and body: "(if ondx < chans'
          then case f' indx ondx s of None \<Rightarrow> None
               | Some (ok, s') \<Rightarrow>
                   if \<not> ok then Some s'
                   else loop chans' nin' nout' f' ((indx + nin') mod chans') (ondx + nout') s'
          else Some s) = Some y"
      and eqs: "chans' = chans" "nout' = nout" "f' = f"
    show "ondx \<notin> B"
    proof
      assume b: "ondx \<in> B"
      from inv[OF b, of indx s] obtain s' where
        lt: "ondx < chans" and nb: "ondx + nout \<in> B" and fs: "f indx ondx s = Some (True, s')"
        by blast
      with body eqs have "loop chans nin' nout f ((indx + nin') mod chans) (ondx + nout) s' = Some y"
        by simp
      from IH[OF this] nb show False by simp
    qed
  qed
  with start show False by simp
qed

text \<open>
  C10 (as amended). When the output arity is at least 1 and \<open>chans\<close> plus the output
  arity does not exceed \<open>2^32\<close> (so that the \<^verbatim>\<open>unsigned\<close> output offset cannot wrap
  around), \<^verbatim>\<open>AllocateChannelsToProcessors\<close> returns whenever its callback does, and
  with a callback that never returns false it calls it exactly
  \<open>\<lceil>chans / outputArity\<rceil>\<close> times. With output arity 0, \<open>chans > 0\<close> and a
  callback that never returns false it does not return.
\<close>

theorem C10_allocator_termination:
  fixes chans nin nout :: u32 and f :: "u32 \<Rightarrow> u32 \<Rightarrow> 's \<Rightarrow> (bool \<times> 's) option"
  shows "(0 < nout \<and> unat chans + unat nout \<le> 2 ^ 32 \<and> (\<forall>indx ondx s. f indx ondx s \<noteq> None)
            \<longrightarrow> (\<exists>s'. AllocateChannelsToProcessors chans nin nout f s = Some s'))
       \<and> (0 < nout \<and> unat chans + unat nout \<le> 2 ^ 32
            \<and> (\<forall>indx ondx s. \<exists>s'. f indx ondx s = Some (True, s'))
            \<longrightarrow> (\<exists>cs s'. AllocateChannelsToProcessors chans nin nout (tracing f) ([], s) = Some (cs, s')
                   \<and> length cs = (unat chans + unat nout - 1) div unat nout))
       \<and> (0 < chans \<and> (\<forall>indx ondx s. \<exists>s'. f indx ondx s = Some (True, s'))
            \<longrightarrow> AllocateChannelsToProcessors chans nin 0 f s = None)"
proof (intro conjI impI)
  assume "0 < nout \<and> unat chans + unat nout \<le> 2 ^ 32 \<and> (\<forall>indx ondx s. f indx ondx s \<noteq> None)"
  then show "\<exists>s'. AllocateChannelsToProcessors chans nin nout f s = Some s'"
    by (intro alloc_loop_returns) simp_all
next
  assume "0 < nout \<and> unat chans + unat nout \<le> 2 ^ 32
            \<and> (\<forall>indx ondx s. \<exists>s'. f indx ondx s = Some (True, s'))"
  then show "\<exists>cs s'. AllocateChannelsToProcessors chans nin nout (tracing f) ([], s) = Some (cs, s')
                   \<and> length cs = (unat chans + unat nout - 1) div unat nout"
    by (intro alloc_loop_count) simp_all
next
  assume a: "0 < chans \<and> (\<forall>indx ondx s. \<exists>s'. f indx ondx s = Some (True, s'))"
  have "alloc_loop chans nin 0 f 0 0 s = None"
    by (rule alloc_loop_diverges[where B = "{0}"]) (use a in auto)
  then show "AllocateChannelsToProcessors chans nin 0 f s = None"
    by (simp add: AllocateChannelsToProcessors_def)
qed

theorem C10_allocator_termination_witness:
  "(\<exists>s'. AllocateChannelsToProcessors 3 2 1 (\<lambda>indx ondx s. Some (True, s)) () = Some s')
   \<and> (\<exists>cs s'. AllocateChannelsToProcessors 3 2 1 (tracing (\<lambda>indx ondx s. Some (True, s)))
                  ([], ()) = Some (cs, s') \<and> length cs = 3)
   \<and> AllocateChannelsToProcessors 3 2 0 (\<lambda>indx ondx s. Some (True, s)) () = None"
  using C10_allocator_termination
          [where chans = 3 and nin = 2 and nout = 1 and f = "\<lambda>indx ondx s. Some (True, s)"
             and s = "()"]
  by simp

text \<open>
  The claim as stated fails: with \<open>chans = 2^32 - 1\<close> and output arity \<open>2^31\<close> the
  output offset goes 0, \<open>2^31\<close>, 0, ... and the loop does not return.
\<close>

theorem C10_counterexample:
  "(0 :: u32) < 2147483648
   \<and> AllocateChannelsToProcessors 4294967295 1 2147483648 (\<lambda>indx ondx s. Some (True, s)) () = None"
proof -
  have "alloc_loop 4294967295 1 2147483648 (\<lambda>indx ondx s. Some (True, s)) 0 0 () = None"
    by (rule alloc_loop_diverges[where B = "{0, 2147483648}"]) auto
  then show ?thesis by (simp add: AllocateChannelsToProcessors_def)
qed

subsection \<open>The calls without wrap-around\<close>

text \<open>
  Without wrap-around the offsets that the loop computes in \<^verbatim>\<open>unsigned\<close>
  arithmetic are the numbers of the specification.
\<close>

lemma output_offset_no_wrap:
  fixes chans nout :: u32
  assumes nw: "unat chans + unat nout \<le> 2 ^ 32"
    and below: "\<forall>j<k. (of_nat j * nout :: u32) < chans"
  shows "unat (of_nat k * nout :: u32) = outputOffset (unat nout) k"
  using below
proof (induction k)
  case 0
  show ?case by (simp add: outputOffset_def)
next
  case (Suc k)
  then have IH: "unat (of_nat k * nout :: u32) = outputOffset (unat nout) k"
    and lt: "(of_nat k * nout :: u32) < chans" by simp_all
  have "(of_nat (Suc k) * nout :: u32) = of_nat k * nout + nout"
    by (simp add: algebra_simps)
  with unat_ondx_step[OF lt nw] IH show ?case by (simp add: outputOffset_def)
qed

lemma input_offset_no_wrap:
  fixes chans nin :: u32
  assumes c: "0 < chans" and nw: "unat chans + unat nin \<le> 2 ^ 32"
  shows "unat (offsets_from chans nin 0 k) = inputOffset (unat chans) (unat nin) k"
proof (induction k)
  case 0
  show ?case by simp
next
  case (Suc k)
  from c have c0: "0 < unat chans" by (simp add: word_less_nat_alt)
  have "inputOffset (unat chans) (unat nin) k < unat chans"
    using c0 by (cases k) simp_all
  with Suc nw have "unat (offsets_from chans nin 0 k) + unat nin < 2 ^ 32" by simp
  then have "unat (offsets_from chans nin 0 k + nin) = unat (offsets_from chans nin 0 k) + unat nin"
    by (simp add: unat_add_lem[THEN iffD1])
  then show ?case
    by (simp only: offsets_from_Suc inputOffset.simps unat_mod Suc)
qed

lemma trace_as_specified:
  fixes chans nin nout :: u32
  assumes t: "trace_ok chans nin nout 0 0 cs"
    and nwi: "unat chans + unat nin \<le> 2 ^ 32"
    and nwo: "unat chans + unat nout \<le> 2 ^ 32"
  shows "calls_as_specified chans nin nout cs"
proof -
  from t have pairs: "\<And>k. k < length cs \<Longrightarrow>
        call_pair (cs ! k) = (offsets_from chans nin 0 k, of_nat k * nout)"
    and below: "\<And>k. k < length cs \<Longrightarrow> (of_nat k * nout :: u32) < chans"
    and last_only: "\<forall>k<length cs. \<not> call_ok (cs ! k) \<longrightarrow> Suc k = length cs"
    and used_up: "cs = [] \<or> call_ok (last cs) \<Longrightarrow> \<not> (of_nat (length cs) * nout :: u32) < chans"
    by (simp_all add: trace_ok_def)
  have out: "unat (of_nat k * nout :: u32) = outputOffset (unat nout) k" if "k \<le> length cs" for k
    by (rule output_offset_no_wrap[OF nwo]) (use that below in simp)
  have one: "unat (fst (call_pair (cs ! k))) = inputOffset (unat chans) (unat nin) k
           \<and> unat (snd (call_pair (cs ! k))) = outputOffset (unat nout) k
           \<and> outputOffset (unat nout) k < unat chans" if k: "k < length cs" for k
  proof -
    from below[OF k] have "unat (of_nat k * nout :: u32) < unat chans"
      by (simp add: word_less_nat_alt)
    then have c: "0 < chans" by (simp add: word_less_nat_alt)
    from k have "k \<le> length cs" by simp
    from out[OF this] \<open>unat (of_nat k * nout :: u32) < unat chans\<close>
      input_offset_no_wrap[OF c nwi, of k] pairs[OF k]
    show ?thesis by simp
  qed
  have fin: "\<not> outputOffset (unat nout) (length cs) < unat chans" if "cs = [] \<or> call_ok (last cs)"
    using used_up[OF that] out[of "length cs"] by (simp add: word_less_nat_alt)
  from one last_only fin show ?thesis
    unfolding calls_as_specified_def by blast
qed

lemma tracing_returns:
  "\<forall>indx ondx s. f indx ondx s \<noteq> None \<Longrightarrow> \<forall>indx ondx ls. tracing f indx ondx ls \<noteq> None"
  by (auto simp: tracing_def split: option.splits)

text \<open>
  C2 (as amended). When \<open>chans\<close> plus the input arity and \<open>chans\<close> plus the output
  arity do not exceed \<open>2^32\<close> (so that the \<^verbatim>\<open>unsigned\<close> offsets cannot wrap
  around): with an output arity of at least 1 and a callback that returns,
  \<^verbatim>\<open>AllocateChannelsToProcessors\<close> returns, having called the callback as the
  specification says; and with any output arity, every run that returns has called it so.
  Call \<open>k\<close> has the output offset \<open>k\<close> times the output arity, which is below
  \<open>chans\<close>, and the input offset that starts at 0 and advances by the input arity
  modulo \<open>chans\<close>; a call that returns false is the last one; and when no call returned
  false, the next output offset is not below \<open>chans\<close>.
\<close>

theorem C2_allocator_calls:
  fixes chans nin nout :: u32 and f :: "u32 \<Rightarrow> u32 \<Rightarrow> 's \<Rightarrow> (bool \<times> 's) option"
  assumes nwi: "unat chans + unat nin \<le> 2 ^ 32"
    and nwo: "unat chans + unat nout \<le> 2 ^ 32"
  shows "(0 < nout \<and> (\<forall>indx ondx s. f indx ondx s \<noteq> None)
            \<longrightarrow> (\<exists>cs s'. AllocateChannelsToProcessors chans nin nout (tracing f) ([], s) = Some (cs, s')
                   \<and> calls_as_specified chans nin nout cs))
       \<and> (\<forall>cs s'. AllocateChannelsToProcessors chans nin nout (tracing f) ([], s) = Some (cs, s')
            \<longrightarrow> calls_as_specified chans nin nout cs)"
proof -
  have part: "calls_as_specified chans nin nout cs"
    if run: "AllocateChannelsToProcessors chans nin nout (tracing f) ([], s) = Some (cs, s')"
    for cs s'
    using alloc_loop_trace[OF run[unfolded AllocateChannelsToProcessors_def]]
    by (intro trace_as_specified[OF _ nwi nwo]) simp
  have total: "\<exists>cs s'. AllocateChannelsToProcessors chans nin nout (tracing f) ([], s) = Some (cs, s')
                 \<and> calls_as_specified chans nin nout cs"
    if nout: "0 < nout" and f: "\<forall>indx ondx s. f indx ondx s \<noteq> None"
  proof -
    from alloc_loop_returns[OF nout nwo tracing_returns[OF f], of nin "([], s)"]
    obtain r where "AllocateChannelsToProcessors chans nin nout (tracing f) ([], s) = Some r"
      by blast
    then have "AllocateChannelsToProcessors chans nin nout (tracing f) ([], s)
                 = Some (fst r, snd r)" by simp
    with part show ?thesis by blast
  qed
  from part total show ?thesis by blast
qed

theorem C2_allocator_calls_witness:
  "(\<exists>cs s'. AllocateChannelsToProcessors 3 2 1 (tracing (\<lambda>indx ondx s. Some (True, s))) ([], ())
              = Some (cs, s')
        \<and> calls_as_specified 3 2 1 cs)
   \<and> AllocateChannelsToProcessors 3 2 1 (tracing (\<lambda>indx ondx s. Some (True, s))) ([], ())
       = Some ([(0, 0, True), (2, 1, True), (1, 2, True)], ())
   \<and> calls_as_specified 3 2 1 [(0, 0, True), (2, 1, True), (1, 2, True)]
   \<and> AllocateChannelsToProcessors 3 2 1 (tracing (\<lambda>indx ondx s. Some (ondx \<noteq> 1, s))) ([], ())
       = Some ([(0, 0, True), (2, 1, False)], ())
   \<and> calls_as_specified 3 2 1 [(0, 0, True), (2, 1, False)]
   \<and> map (inputOffset 3 2) [0, 1, 2] = [0, 2, 1]
   \<and> map (outputOffset 1) [0, 1, 2, 3] = [0, 1, 2, 3]"
proof -
  have b: "unat (3 :: u32) + unat (2 :: u32) \<le> 2 ^ 32" "unat (3 :: u32) + unat (1 :: u32) \<le> 2 ^ 32"
    by simp_all
  have h: "(0 :: u32) < 1 \<and> (\<forall>indx ondx s. (\<lambda>(indx :: u32) (ondx :: u32) (s :: unit). Some (True, s)) indx ondx s \<noteq> None)"
    by simp
  have run: "AllocateChannelsToProcessors 3 2 1 (tracing (\<lambda>indx ondx s. Some (True, s))) ([], ())
             = Some ([(0, 0, True), (2, 1, True), (1, 2, True)], ())"
    by (simp add: AllocateChannelsToProcessors_def alloc_loop.simps tracing_def)
  have stop: "AllocateChannelsToProcessors 3 2 1 (tracing (\<lambda>indx ondx s. Some (ondx \<noteq> 1, s))) ([], ())
             = Some ([(0, 0, True), (2, 1, False)], ())"
    by (simp add: AllocateChannelsToProcessors_def alloc_loop.simps tracing_def)
  note C2 = C2_allocator_calls[OF b]
  from C2[where f = "\<lambda>indx ondx s. Some (True, s)" and s = "()", THEN conjunct1, rule_format, OF h]
  have 1: "\<exists>cs s'. AllocateChannelsToProcessors 3 2 1 (tracing (\<lambda>indx ondx s. Some (True, s))) ([], ())
              = Some (cs, s') \<and> calls_as_specified 3 2 1 cs" .
  from C2[where f = "\<lambda>indx ondx s. Some (True, s)" and s = "()", THEN conjunct2, rule_format, OF run]
  have 2: "calls_as_specified 3 2 1 [(0, 0, True), (2, 1, True), (1, 2, True)]" .
  from C2[where f = "\<lambda>indx ondx s. Some (ondx \<noteq> 1, s)" and s = "()", THEN conjunct2, rule_format, OF stop]
  have 3: "calls_as_specified 3 2 1 [(0, 0, True), (2, 1, False)]" .
  have 4: "map (inputOffset 3 2) [0, 1, 2] = [0, 2, 1]"
      "map (outputOffset 1) [0, 1, 2, 3] = [0, 1, 2, 3]"
    by (simp_all add: outputOffset_def numeral_2_eq_2)
  from 1 run 2 stop 3 4 show ?thesis by (intro conjI)
qed

text \<open>
  The claim as stated fails where the \<^verbatim>\<open>unsigned\<close> output offset wraps around:
  with \<open>chans = 2^32 - 1\<close> and output arity \<open>2^31\<close> the third call has the output
  offset 0, where the specification has \<open>2 * 2^31\<close>, which is not below \<open>chans\<close>,
  so that there should be no third call.
\<close>

theorem C2_counterexample:
  "AllocateChannelsToProcessors 4294967295 1 2147483648
       (tracing (\<lambda>indx ondx s. Some (s < 2, Suc s))) ([], 0 :: nat)
     = Some ([(0, 0, True), (1, 2147483648, True), (2, 0, False)], 3)
   \<and> \<not> calls_as_specified 4294967295 1 2147483648
          [(0, 0, True), (1, 2147483648, True), (2, 0, False)]
   \<and> outputOffset (unat (2147483648 :: u32)) 2 = 4294967296
   \<and> \<not> outputOffset (unat (2147483648 :: u32)) 2 < unat (4294967295 :: u32)"
proof -
  have run: "AllocateChannelsToProcessors 4294967295 1 2147483648
       (tracing (\<lambda>indx ondx s. Some (s < 2, Suc s))) ([], 0 :: nat)
     = Some ([(0, 0, True), (1, 2147483648, True), (2, 0, False)], 3)"
    by (simp add: AllocateChannelsToProcessors_def alloc_loop.simps tracing_def)
  have o: "outputOffset (unat (2147483648 :: u32)) 2 = 4294967296"
    by (simp add: outputOffset_def)
  have "\<not> calls_as_specified 4294967295 1 2147483648
          [(0, 0, True), (1, 2147483648, True), (2, 0, False)]"
  proof
    assume "calls_as_specified 4294967295 1 2147483648
          [(0, 0, True), (1, 2147483648, True), (2, 0, False)]"
    then have "\<forall>k<3. outputOffset (unat (2147483648 :: u32)) k < unat (4294967295 :: u32)"
      by (simp add: calls_as_specified_def)
    then have "outputOffset (unat (2147483648 :: u32)) 2 < unat (4294967295 :: u32)" by simp
    with o show False by simp
  qed
  with run o show ?thesis by simp
qed

section \<open>Settings exchange: Set and WorkerRead\<close>

lemmas sample_defs = sample_plugin_def constructed_def fresh_state_def accepting_def
  failing_hooks_def live_state_def active_state_def delaying_def two_in_one_out_def

lemmas AddTrack_defs = AddTrack_def EnsureInstance_def IsActive_def
  AllocateChannelsToProcessors_def AddTrack_callback_def Let_def

text \<open>A state that has handed out a handle with a live reference has its access state.\<close>

lemma GetAccess_has_access_state:
  fixes st :: "('c, 'o, 'i, 'w::len) RealtimeEffectState"
  assumes "mPlugin st" "has_value (settings (mMainSettings st))"
  shows "mpAccessState (GetAccess st) \<noteq> None"
  using assms by (auto simp: GetAccess_def Let_def split: option.splits)

text \<open>
  C4 (as amended). \<^verbatim>\<open>Access::Set\<close> with settings that hold no value changes
  nothing: the state, with the last-known settings, the counter and the channel, is as
  before. The same holds when the state is gone. With settings that hold a value, on a live
  state that has its access state (as every state has from which a handle with a live
  reference was made), the last-known settings become the new settings, the counter is
  incremented in its unsigned type, that is, it increases by exactly 1 unless it holds the
  largest value of the type, from which it wraps around to 0, and exactly that pair is
  written to the control-to-worker channel, where the next read finds a value equal to the
  last-known copy; nothing else changes.
\<close>

theorem C4_Access_Set:
  fixes new :: "'c EffectSettings" and st :: "('c, 'o, 'i, 'w::len) RealtimeEffectState"
  shows "(\<not> has_value new \<longrightarrow> Access_Set new mwState = mwState)
       \<and> Access_Set new None = None
       \<and> (has_value new \<and> mpAccessState st = Some acc \<longrightarrow>
            (\<exists>acc'. Access_Set new (Some st) = Some (st\<lparr>mpAccessState := Some acc'\<rparr>)
               \<and> settings (mLastSettings acc') = new
               \<and> unat (counter (mLastSettings acc'))
                    = (if unat (counter (mLastSettings acc)) + 1 < 2 ^ LENGTH('w)
                       then unat (counter (mLastSettings acc)) + 1 else 0)
               \<and> mChannelFromMain acc'
                    = MessageBuffer_Write (mChannelFromMain acc) FromMainSlot_assign (mLastSettings acc')
               \<and> MessageBuffer_Read (mChannelFromMain acc') mSettings = mLastSettings acc'
               \<and> mCounter acc' = mCounter acc))"
proof (intro conjI impI)
  show "Access_Set new None = None" by (simp add: Access_Set_def)
next
  assume "\<not> has_value new"
  then show "Access_Set new mwState = mwState" by (simp add: Access_Set_def)
next
  assume h: "has_value new \<and> mpAccessState st = Some acc"
  let ?c = "counter (mLastSettings acc)"
  have u: "unat (?c + 1) = (if unat ?c + 1 < 2 ^ LENGTH('w) then unat ?c + 1 else 0)"
  proof (cases "unat ?c + 1 < 2 ^ LENGTH('w)")
    case True
    then have "unat ?c + unat (1 :: 'w word) < 2 ^ LENGTH('w)" by simp
    then have "unat (?c + 1) = unat ?c + unat (1 :: 'w word)"
      by (rule unat_add_lem[THEN iffD1])
    with True show ?thesis by simp
  next
    case False
    have "unat ?c < 2 ^ LENGTH('w)" by (rule unsigned_less)
    with False have "unat ?c + 1 = 2 ^ LENGTH('w)" by linarith
    then have "of_nat (unat ?c + 1) = (0 :: 'w word)" by simp
    then have "?c + 1 = 0" by (simp add: add.commute)
    with False show ?thesis by simp
  qed
  define l where "l = (mLastSettings acc)\<lparr>settings := new, counter := ?c + 1\<rparr>"
  define acc' where "acc' = MainWrite l (acc\<lparr>mLastSettings := l\<rparr>)"
  have s: "Access_Set new (Some st) = Some (st\<lparr>mpAccessState := Some acc'\<rparr>)"
    using h by (simp add: Access_Set_def Let_def acc'_def l_def)
  have l: "mLastSettings acc' = l" "mCounter acc' = mCounter acc"
      "mChannelFromMain acc' = MessageBuffer_Write (mChannelFromMain acc) FromMainSlot_assign l"
    by (simp_all add: acc'_def MainWrite_def)
  have r: "MessageBuffer_Read (MessageBuffer_Write (mChannelFromMain acc) FromMainSlot_assign l)
             mSettings = l"
    by (auto simp: MessageBuffer_Write_def MessageBuffer_Read_def FromMainSlot_assign_def Let_def)
  have c: "settings l = new" "counter l = ?c + 1" by (simp_all add: l_def)
  show "\<exists>acc'. Access_Set new (Some st) = Some (st\<lparr>mpAccessState := Some acc'\<rparr>)
               \<and> settings (mLastSettings acc') = new
               \<and> unat (counter (mLastSettings acc'))
                    = (if unat (counter (mLastSettings acc)) + 1 < 2 ^ LENGTH('w)
                       then unat (counter (mLastSettings acc)) + 1 else 0)
               \<and> mChannelFromMain acc'
                    = MessageBuffer_Write (mChannelFromMain acc) FromMainSlot_assign (mLastSettings acc')
               \<and> MessageBuffer_Read (mChannelFromMain acc') mSettings = mLastSettings acc'
               \<and> mCounter acc' = mCounter acc"
    by (rule exI[of _ acc']) (simp only: s l r c u simp_thms)
qed

theorem C4_Access_Set_witness:
  "Access_Set \<lparr>any_value = None, extra = \<lparr>mActive = False\<rparr>\<rparr> (Some (GetAccess fresh_state))
     = Some (GetAccess fresh_state)
   \<and> map_option (map_option (unat \<circ> counter \<circ> mLastSettings) \<circ> mpAccessState)
       (Some (GetAccess fresh_state))
     = Some (Some 0)
   \<and> map_option (map_option (unat \<circ> counter \<circ> mLastSettings) \<circ> mpAccessState)
       (Access_Set \<lparr>any_value = Some (), extra = \<lparr>mActive = False\<rparr>\<rparr> (Some (GetAccess fresh_state)))
     = Some (Some 1)
   \<and> map_option (map_option (settings \<circ> mLastSettings) \<circ> mpAccessState)
       (Access_Set \<lparr>any_value = Some (), extra = \<lparr>mActive = False\<rparr>\<rparr> (Some (GetAccess fresh_state)))
     = Some (Some \<lparr>any_value = Some (), extra = \<lparr>mActive = False\<rparr>\<rparr>)
   \<and> map_option (map_option (\<lambda>acc. MessageBuffer_Read (mChannelFromMain acc) mSettings = mLastSettings acc)
          \<circ> mpAccessState)
       (Access_Set \<lparr>any_value = Some (), extra = \<lparr>mActive = False\<rparr>\<rparr> (Some (GetAccess fresh_state)))
     = Some (Some True)"
proof -
  let ?new = "\<lparr>any_value = Some (), extra = \<lparr>mActive = False\<rparr>\<rparr>"
  let ?none = "\<lparr>any_value = None :: unit option, extra = \<lparr>mActive = False\<rparr>\<rparr>"
  obtain acc where acc: "mpAccessState (GetAccess fresh_state) = Some acc"
    and c: "counter (mLastSettings acc) = 0"
    by (simp add: GetAccess_def sample_defs has_value_def Let_def)
  have v: "has_value ?new" "\<not> has_value ?none" by (simp_all add: has_value_def)
  from C4_Access_Set[where new = ?none and mwState = "Some (GetAccess fresh_state)", THEN conjunct1] v
  have 1: "Access_Set ?none (Some (GetAccess fresh_state)) = Some (GetAccess fresh_state)" by simp
  from C4_Access_Set[where new = ?new and st = "GetAccess fresh_state" and acc = acc,
      THEN conjunct2, THEN conjunct2] v acc
  obtain acc' where
    "Access_Set ?new (Some (GetAccess fresh_state)) = Some ((GetAccess fresh_state)\<lparr>mpAccessState := Some acc'\<rparr>)"
    "settings (mLastSettings acc') = ?new"
    "unat (counter (mLastSettings acc'))
       = (if unat (counter (mLastSettings acc)) + 1 < 2 ^ LENGTH(8)
          then unat (counter (mLastSettings acc)) + 1 else 0)"
    "MessageBuffer_Read (mChannelFromMain acc') mSettings = mLastSettings acc'"
    by auto
  with 1 c acc show ?thesis by simp
qed

text \<open>After \<open>n\<close> calls of \<^verbatim>\<open>Set\<close> the counter is \<open>n\<close>, in the counter's type.\<close>

lemma repeated_Set_counter:
  "\<exists>st acc. repeated_Set n = Some st \<and> mpAccessState st = Some acc
      \<and> counter (mLastSettings acc) = of_nat n"
proof (induction n)
  case 0
  show ?case
    by (simp add: repeated_Set_def GetAccess_def sample_defs has_value_def Let_def)
next
  case (Suc n)
  then obtain st acc where r: "repeated_Set n = Some st" and a: "mpAccessState st = Some acc"
    and c: "counter (mLastSettings acc) = of_nat n" by blast
  have "repeated_Set (Suc n)
          = Access_Set \<lparr>any_value = Some (), extra = \<lparr>mActive = True\<rparr>\<rparr> (repeated_Set n)"
    by (simp add: repeated_Set_def)
  with r a c show ?case
    by (simp add: Access_Set_def has_value_def Let_def MainWrite_def)
qed

text \<open>
  The claim as stated fails at the largest counter: after 255 calls of \<^verbatim>\<open>Set\<close> an
  8-bit counter is 255, and one more \<^verbatim>\<open>Set\<close> with settings that hold a value
  leaves it at 0; it has not increased by 1, and it is again the counter that the worker
  started with.
\<close>

theorem C4_counterexample:
  "has_value \<lparr>any_value = Some (), extra = \<lparr>mActive = True\<rparr>\<rparr>
   \<and> map_option (map_option (unat \<circ> counter \<circ> mLastSettings) \<circ> mpAccessState) (repeated_Set 255)
       = Some (Some 255)
   \<and> map_option (map_option (unat \<circ> counter \<circ> mLastSettings) \<circ> mpAccessState)
       (Access_Set \<lparr>any_value = Some (), extra = \<lparr>mActive = True\<rparr>\<rparr> (repeated_Set 255))
       = Some (Some 0)"
proof -
  from repeated_Set_counter[of 255] obtain st acc where
    r: "repeated_Set 255 = Some st" and a: "mpAccessState st = Some acc"
    and c: "counter (mLastSettings acc) = 255" by auto
  from a c have "map_option (map_option (unat \<circ> counter \<circ> mLastSettings) \<circ> mpAccessState)
       (Access_Set \<lparr>any_value = Some (), extra = \<lparr>mActive = True\<rparr>\<rparr> (Some st)) = Some (Some 0)"
    by (simp add: Access_Set_def has_value_def Let_def MainWrite_def)
  with r a c show ?thesis by (simp add: has_value_def)
qed

text \<open>
  C5. When the counter in the current cell of the channel equals the worker's counter,
  \<^verbatim>\<open>WorkerRead\<close> leaves the state, with the worker's settings and counter, as it is,
  whatever the plugin's copy routine would do: the routine is not applied. When the
  counters differ, the worker's counter becomes the cell's, the content is what the
  plugin's copy routine makes of the cell's settings and the worker's, and ``extra'' is
  the cell's. A second read with no write in between changes nothing.
\<close>

theorem C5_WorkerRead:
  fixes st :: "('c, 'o, 'i, 'w::len) RealtimeEffectState"
  shows "(counter (MessageBuffer_Read (mChannelFromMain acc) mSettings) = counter (mWorkerSettings st)
            \<longrightarrow> WorkerRead P acc st = st)
       \<and> (counter (MessageBuffer_Read (mChannelFromMain acc) mSettings) \<noteq> counter (mWorkerSettings st)
            \<longrightarrow> WorkerRead P acc st
                  = st\<lparr>mWorkerSettings :=
                        \<lparr>settings =
                           (CopySettingsContents P
                              (settings (MessageBuffer_Read (mChannelFromMain acc) mSettings))
                              (settings (mWorkerSettings st)))
                           \<lparr>extra := extra (settings (MessageBuffer_Read (mChannelFromMain acc) mSettings))\<rparr>,
                         counter = counter (MessageBuffer_Read (mChannelFromMain acc) mSettings)\<rparr>\<rparr>)
       \<and> WorkerRead P acc (WorkerRead P acc st) = WorkerRead P acc st"
  by (auto simp: WorkerRead_def MessageBuffer_Read_def FromMainSlot_Reader_def Let_def)

theorem C5_WorkerRead_witness:
  "mWorkerSettings (WorkerRead failing_hooks sample_access fresh_state) = revision 4
   \<and> WorkerRead failing_hooks sample_access (fresh_state\<lparr>mWorkerSettings := revision 4\<rparr>)
       = fresh_state\<lparr>mWorkerSettings := revision 4\<rparr>
   \<and> WorkerRead failing_hooks sample_access (WorkerRead failing_hooks sample_access fresh_state)
       = WorkerRead failing_hooks sample_access fresh_state"
proof -
  have r: "MessageBuffer_Read (mChannelFromMain sample_access) mSettings = revision 4"
    by (simp add: MessageBuffer_Read_def sample_access_def)
  have c1: "counter (MessageBuffer_Read (mChannelFromMain sample_access) mSettings)
              \<noteq> counter (mWorkerSettings fresh_state)"
    by (simp add: r revision_def sample_defs)
  have c2: "counter (MessageBuffer_Read (mChannelFromMain sample_access) mSettings)
              = counter (mWorkerSettings (fresh_state\<lparr>mWorkerSettings := revision 4\<rparr>))"
    by (simp add: r)
  note t = C5_WorkerRead[where P = failing_hooks and acc = sample_access]
  have cp: "(CopySettingsContents failing_hooks (settings (revision 4))
           (settings (mWorkerSettings fresh_state)))\<lparr>extra := extra (settings (revision 4))\<rparr>
      = settings (revision 4)"
    by (simp add: sample_defs revision_def)
  have 1: "mWorkerSettings (WorkerRead failing_hooks sample_access fresh_state) = revision 4"
    using cp
    by (simp add: t[where st = fresh_state, THEN conjunct2, THEN conjunct1, rule_format, OF c1] r)
  have 2: "WorkerRead failing_hooks sample_access (fresh_state\<lparr>mWorkerSettings := revision 4\<rparr>)
       = fresh_state\<lparr>mWorkerSettings := revision 4\<rparr>"
    by (rule t[where st = "fresh_state\<lparr>mWorkerSettings := revision 4\<rparr>",
          THEN conjunct1, rule_format, OF c2])
  have 3: "WorkerRead failing_hooks sample_access (WorkerRead failing_hooks sample_access fresh_state)
       = WorkerRead failing_hooks sample_access fresh_state"
    by (rule t[where st = fresh_state, THEN conjunct2, THEN conjunct2])
  from 1 2 3 show ?thesis by (simp only: simp_thms)
qed

section \<open>ProcessStart: transitions of activity\<close>

lemma WorkerRead_fields:
  "mwInstance (WorkerRead P acc st) = mwInstance st"
  "mLastActive (WorkerRead P acc st) = mLastActive st"
  by (simp_all add: WorkerRead_def)

text \<open>
  C7 (as amended). \<^verbatim>\<open>ProcessStart\<close>, for a plugin whose hooks can be observed
  (\<open>obs\<close> gives the hooks an instance has seen); the computed activity is the active
  flag of the worker settings, after the channel has been read, and \<open>running\<close>.
  On a state whose instance is alive: the suspend and resume hooks called in this call are
  none when the computed activity equals the recorded one, and exactly one otherwise,
  resume when the computed activity is true and suspend when it is false. When that hook
  fails, \<^verbatim>\<open>ProcessStart\<close> returns false and the recorded activity is unchanged; when
  it succeeds, the recorded activity is the computed one. On a state whose instance is not
  alive there is no instance to call a hook of, \<^verbatim>\<open>ProcessStart\<close> returns false, and
  the recorded activity becomes the computed one, whether it differed or not.
\<close>

theorem C7_ProcessStart_transition:
  fixes st :: "('c, 'o, 'i, 'w::len) RealtimeEffectState" and obs :: "'i \<Rightarrow> hook list"
  assumes resume: "\<forall>j. obs (snd (RealtimeResume P j)) = obs j @ [ResumeHook]"
    and suspend: "\<forall>j. obs (snd (RealtimeSuspend P j)) = obs j @ [SuspendHook]"
    and start: "\<forall>w j. obs (snd (RealtimeProcessStart P w j)) = obs j @ [ProcessStartHook]"
  shows "(\<forall>i. mwInstance st = Some i \<longrightarrow>
           (\<exists>i'. mwInstance (snd (ProcessStart P running st)) = Some i'
              \<and> suspend_resume (drop (length (obs i)) (obs i'))
                  = (if computed_activity P running st \<noteq> mLastActive st
                     then [if computed_activity P running st then ResumeHook else SuspendHook]
                     else [])
              \<and> (computed_activity P running st \<noteq> mLastActive st
                   \<and> \<not> fst ((if computed_activity P running st then RealtimeResume P
                              else RealtimeSuspend P) i)
                 \<longrightarrow> \<not> fst (ProcessStart P running st)
                     \<and> mLastActive (snd (ProcessStart P running st)) = mLastActive st)
              \<and> (computed_activity P running st \<noteq> mLastActive st
                   \<and> fst ((if computed_activity P running st then RealtimeResume P
                            else RealtimeSuspend P) i)
                 \<longrightarrow> mLastActive (snd (ProcessStart P running st))
                       = computed_activity P running st)))
       \<and> (mwInstance st = None \<longrightarrow>
             \<not> fst (ProcessStart P running st)
           \<and> mwInstance (snd (ProcessStart P running st)) = None
           \<and> mLastActive (snd (ProcessStart P running st)) = computed_activity P running st)"
proof (intro conjI allI impI)
  fix i
  assume alive: "mwInstance st = Some i"
  define st1 where "st1 = (case mpAccessState st of None \<Rightarrow> st | Some acc \<Rightarrow> WorkerRead P acc st)"
  have a1: "mwInstance st1 = Some i" and l1: "mLastActive st1 = mLastActive st"
    using alive by (simp_all add: st1_def WorkerRead_fields split: option.splits)
  have act: "computed_activity P running st = (IsActive st1 \<and> running)"
    by (simp add: computed_activity_def st1_def IsActive_def)
  show "\<exists>i'. mwInstance (snd (ProcessStart P running st)) = Some i'
              \<and> suspend_resume (drop (length (obs i)) (obs i'))
                  = (if computed_activity P running st \<noteq> mLastActive st
                     then [if computed_activity P running st then ResumeHook else SuspendHook]
                     else [])
              \<and> (computed_activity P running st \<noteq> mLastActive st
                   \<and> \<not> fst ((if computed_activity P running st then RealtimeResume P
                              else RealtimeSuspend P) i)
                 \<longrightarrow> \<not> fst (ProcessStart P running st)
                     \<and> mLastActive (snd (ProcessStart P running st)) = mLastActive st)
              \<and> (computed_activity P running st \<noteq> mLastActive st
                   \<and> fst ((if computed_activity P running st then RealtimeResume P
                            else RealtimeSuspend P) i)
                 \<longrightarrow> mLastActive (snd (ProcessStart P running st))
                       = computed_activity P running st)"
  proof (cases "computed_activity P running st = mLastActive st")
    case True
    then show ?thesis
      using a1 l1 act start
      by (auto simp: ProcessStart_def ProcessStart_rest_def Let_def st1_def[symmetric]
            suspend_resume_def)
  next
    case False
    then show ?thesis
      using a1 l1 act start resume suspend
      by (auto simp: ProcessStart_def ProcessStart_rest_def Let_def st1_def[symmetric]
            suspend_resume_def)
  qed
next
  assume none: "mwInstance st = None"
  then have n: "\<not> fst (ProcessStart P running st)
       \<and> mwInstance (snd (ProcessStart P running st)) = None
       \<and> mLastActive (snd (ProcessStart P running st)) = computed_activity P running st"
    by (auto simp: ProcessStart_def ProcessStart_rest_def Let_def computed_activity_def
          IsActive_def WorkerRead_fields split: option.splits)
  from n show "\<not> fst (ProcessStart P running st)" by simp
  from n show "mwInstance (snd (ProcessStart P running st)) = None" by simp
  from n show "mLastActive (snd (ProcessStart P running st)) = computed_activity P running st"
    by simp
qed

theorem C7_ProcessStart_transition_witness:
  "computed_activity failing_hooks True live_state
   \<and> \<not> mLastActive live_state
   \<and> \<not> fst (ProcessStart failing_hooks True live_state)
   \<and> \<not> mLastActive (snd (ProcessStart failing_hooks True live_state))
   \<and> mwInstance (snd (ProcessStart failing_hooks True live_state)) = Some [ResumeHook]
   \<and> mLastActive (snd (ProcessStart (accepting 1) True live_state))
   \<and> mwInstance (snd (ProcessStart (accepting 1) True live_state)) = Some [ResumeHook, ProcessStartHook]
   \<and> mwInstance expired_state = None
   \<and> \<not> fst (ProcessStart (accepting 1) True expired_state)
   \<and> mLastActive (snd (ProcessStart (accepting 1) True expired_state))"
proof -
  have h: "mwInstance live_state = Some []" "mwInstance expired_state = None"
    by (simp_all add: live_state_def expired_state_def)
  have ca: "computed_activity failing_hooks True live_state"
      "computed_activity (accepting 1) True live_state" "\<not> mLastActive live_state"
      "computed_activity (accepting 1) True expired_state"
    by (simp_all add: computed_activity_def live_state_def expired_state_def sample_defs)
  have f: "\<not> fst (RealtimeResume failing_hooks [])" "fst (RealtimeResume (accepting 1) [])"
    by (simp_all add: sample_defs)
  have hf: "\<forall>j. snd (RealtimeResume failing_hooks j) = j @ [ResumeHook]"
      "\<forall>j. snd (RealtimeSuspend failing_hooks j) = j @ [SuspendHook]"
      "\<forall>w j. snd (RealtimeProcessStart failing_hooks w j) = j @ [ProcessStartHook]"
    by (simp_all add: sample_defs)
  have ha: "\<forall>j. snd (RealtimeResume (accepting 1) j) = j @ [ResumeHook]"
      "\<forall>j. snd (RealtimeSuspend (accepting 1) j) = j @ [SuspendHook]"
      "\<forall>w j. snd (RealtimeProcessStart (accepting 1) w j) = j @ [ProcessStartHook]"
    by (simp_all add: sample_defs)
  have e: "mwInstance (snd (ProcessStart failing_hooks True live_state)) = Some [ResumeHook]"
    "mwInstance (snd (ProcessStart (accepting 1) True live_state)) = Some [ResumeHook, ProcessStartHook]"
    by (simp_all add: ProcessStart_def ProcessStart_rest_def IsActive_def live_state_def sample_defs Let_def)
  from C7_ProcessStart_transition[where P = failing_hooks and st = live_state
      and obs = "\<lambda>i. i" and running = True, OF hf, THEN conjunct1, rule_format, OF h(1)] ca f
  have 1: "\<not> fst (ProcessStart failing_hooks True live_state)
     \<and> \<not> mLastActive (snd (ProcessStart failing_hooks True live_state))"
    by auto
  from C7_ProcessStart_transition[where P = "accepting 1" and st = live_state
      and obs = "\<lambda>i. i" and running = True, OF ha, THEN conjunct1, rule_format, OF h(1)] ca f
  have 2: "mLastActive (snd (ProcessStart (accepting 1) True live_state))"
    by auto
  from C7_ProcessStart_transition[where P = "accepting 1" and st = expired_state
      and obs = "\<lambda>i. i" and running = True, OF ha, THEN conjunct2, rule_format, OF h(2)] ca(4)
  have 3: "\<not> fst (ProcessStart (accepting 1) True expired_state)
     \<and> mLastActive (snd (ProcessStart (accepting 1) True expired_state))"
    by simp
  from 1 2 3 e ca h show ?thesis by simp
qed

text \<open>
  The claim as stated fails when the instance is not alive. On the state whose instance
  has expired the computed activity (true) differs from the recorded one (false), yet
  there is no instance, so that no hook is called; \<^verbatim>\<open>ProcessStart\<close> changes the
  recorded activity all the same, with no hook that succeeded, and returns false. Such a
  state is also what \<^verbatim>\<open>AddTrack\<close> leaves on a fresh state when its only add is
  declined: no instance, the recorded activity true; \<^verbatim>\<open>ProcessStart\<close> with
  \<open>running\<close> false then records the activity false and calls no hook.
\<close>

theorem C7_counterexample:
  "computed_activity (accepting 1) True expired_state
   \<and> \<not> mLastActive expired_state
   \<and> mwInstance expired_state = None
   \<and> ProcessStart (accepting 1) True expired_state = (False, expired_state\<lparr>mLastActive := True\<rparr>)
   \<and> map_option (\<lambda>r. (mwInstance (snd r), mLastActive (snd r),
                        computed_activity (accepting 0) False (snd r)))
        (AddTrack (accepting 0) 7 1 44100 fresh_state)
       = Some (None, True, False)
   \<and> map_option (\<lambda>r. (fst (ProcessStart (accepting 0) False (snd r)),
                        mwInstance (snd (ProcessStart (accepting 0) False (snd r))),
                        mLastActive (snd (ProcessStart (accepting 0) False (snd r)))))
        (AddTrack (accepting 0) 7 1 44100 fresh_state)
       = Some (False, None, False)"
  by (simp add: computed_activity_def ProcessStart_def ProcessStart_rest_def IsActive_def
        expired_state_def live_state_def AddTrack_defs alloc_loop.simps sample_defs Let_def)

section \<open>AddTrack: declined processors\<close>

lemma alloc_loop_invariant:
  assumes run: "alloc_loop chans nin nout f indx ondx s = Some s'"
    and step: "\<And>indx ondx s ok s'. I s \<Longrightarrow> f indx ondx s = Some (ok, s') \<Longrightarrow> I s'"
    and I: "I s"
  shows "I s'"
proof -
  let ?P = "\<lambda>(chans' :: u32) (nin' :: u32) (nout' :: u32) f' (indx :: u32) (ondx :: u32) s s'.
              f' = f \<longrightarrow> I s \<longrightarrow> I s'"
  have "?P chans nin nout f indx ondx s s'"
  proof (rule alloc_loop.raw_induct[where P = ?P, OF _ run], intro impI)
    fix loop chans' nin' nout' f' and indx ondx :: u32 and s s'
    assume IH: "\<And>chans' nin' nout' f' indx ondx s s'.
                  loop chans' nin' nout' f' indx ondx s = Some s' \<Longrightarrow> ?P chans' nin' nout' f' indx ondx s s'"
      and body: "(if ondx < chans'
          then case f' indx ondx s of None \<Rightarrow> None
               | Some (ok, s') \<Rightarrow>
                   if \<not> ok then Some s'
                   else loop chans' nin' nout' f' ((indx + nin') mod chans') (ondx + nout') s'
          else Some s) = Some s'"
      and f: "f' = f" and Is: "I s"
    show "I s'"
    proof (cases "ondx < chans'")
      case False
      with body Is show ?thesis by simp
    next
      case True
      with body obtain ok s1 where fs: "f indx ondx s = Some (ok, s1)"
        by (auto simp: f split: option.splits)
      from step[OF Is fs] have I1: "I s1" .
      show ?thesis
      proof (cases ok)
        case False
        with True fs body f I1 show ?thesis by simp
      next
        case ok: True
        with True fs body f
        have "loop chans' nin' nout' f' ((indx + nin') mod chans') (ondx + nout') s1 = Some s'"
          by simp
        from IH[OF this] f I1 show ?thesis by simp
      qed
    qed
  qed
  with I show ?thesis by simp
qed

lemma EnsureInstance_fields:
  assumes "EnsureInstance P rate st = (r, st1)"
  shows "mCurrentProcessor st1 = mCurrentProcessor st" "mGroups st1 = mGroups st"
    "r \<noteq> None \<Longrightarrow> mPlugin st1"
  using assms
  by (auto simp: EnsureInstance_def Let_def split: if_splits option.splits)

lemma AddTrack_callback_groups:
  "AddTrack_callback P nin rate indx ondx s = Some (ok, s') \<Longrightarrow>
     mGroups (snd s') = mGroups (snd s) \<and> mPlugin (snd s') = mPlugin (snd s)"
  by (auto simp: AddTrack_callback_def Let_def split: if_splits)

text \<open>An allocation whose first call is declined leaves the state as it was.\<close>

lemma alloc_first_declined:
  assumes "0 < chans" and "f 0 0 s = Some (False, s')"
  shows "AllocateChannelsToProcessors chans nin nout f s = Some s'"
  using assms by (simp add: AllocateChannelsToProcessors_def alloc_loop.simps)

text \<open>An allocation that changes the processor index has had a first call, which succeeded.\<close>

lemma alloc_AddTrack_changed:
  assumes run: "AllocateChannelsToProcessors chans nin nout (AddTrack_callback P nin' rate) (i, st1)
                  = Some (i', st2)"
    and ch: "mCurrentProcessor st2 \<noteq> mCurrentProcessor st1"
  shows "0 < chans \<and> fst (RealtimeAddProcessor P (settings (mWorkerSettings st1)) (mOutputs st1) nin' rate i)"
proof (rule ccontr)
  assume n: "\<not> ?thesis"
  show False
  proof (cases "0 < chans")
    case False
    with run have "st2 = st1"
      by (simp add: AllocateChannelsToProcessors_def alloc_loop.simps)
    with ch show False by simp
  next
    case True
    with n have d: "\<not> fst (RealtimeAddProcessor P (settings (mWorkerSettings st1)) (mOutputs st1) nin' rate i)"
      by simp
    then have "\<exists>j. AddTrack_callback P nin' rate 0 0 (i, st1) = Some (False, (j, st1))"
      by (simp add: AddTrack_callback_def Let_def)
    then obtain j where "AddTrack_callback P nin' rate 0 0 (i, st1) = Some (False, (j, st1))" ..
    from alloc_first_declined[where f = "AddTrack_callback P nin' rate", OF True this] run have "st2 = st1" by simp
    with ch show False by simp
  qed
qed

text \<open>
  C8 (as amended). When the first \<^verbatim>\<open>RealtimeAddProcessor\<close> call of an
  \<^verbatim>\<open>AddTrack\<close> declines, \<^verbatim>\<open>AddTrack\<close> fails, the processor index is as on entry
  and the groups are unchanged. When \<^verbatim>\<open>AddTrack\<close> succeeds, at least one processor
  was added (the first add succeeded), the processor index has moved, and the group
  recorded for the track is the index on entry with the sample rate.
\<close>

theorem C8_AddTrack:
  fixes st :: "('c, 'o, 'i, 'w::len) RealtimeEffectState"
  shows "(EnsureInstance P sampleRate st = (Some i, st1) \<and> 0 < chans
            \<and> \<not> fst (RealtimeAddProcessor P (settings (mWorkerSettings st1)) (mOutputs st1)
                       (GetAudioInCount P i) sampleRate i)
          \<longrightarrow> (\<exists>st'. AddTrack P track chans sampleRate st = Some (False, st')
                 \<and> mCurrentProcessor st' = mCurrentProcessor st
                 \<and> mGroups st' = mGroups st))
       \<and> (AddTrack P track chans sampleRate st = Some (True, st')
          \<longrightarrow> (\<exists>i st1. EnsureInstance P sampleRate st = (Some i, st1) \<and> 0 < chans
                 \<and> fst (RealtimeAddProcessor P (settings (mWorkerSettings st1)) (mOutputs st1)
                          (GetAudioInCount P i) sampleRate i))
              \<and> mCurrentProcessor st' \<noteq> mCurrentProcessor st
              \<and> mGroups st' = (mGroups st)(track \<mapsto> (mCurrentProcessor st, sampleRate)))"
proof (intro conjI impI)
  assume a: "EnsureInstance P sampleRate st = (Some i, st1) \<and> 0 < chans
            \<and> \<not> fst (RealtimeAddProcessor P (settings (mWorkerSettings st1)) (mOutputs st1)
                       (GetAudioInCount P i) sampleRate i)"
  then have cb: "AddTrack_callback P (GetAudioInCount P i) sampleRate 0 0 (i, st1)
        = Some (False, (snd (RealtimeAddProcessor P (settings (mWorkerSettings st1)) (mOutputs st1)
                       (GetAudioInCount P i) sampleRate i), st1))"
    by (simp add: AddTrack_callback_def Let_def)
  from a have c: "0 < chans" by simp
  from a have e: "EnsureInstance P sampleRate st = (Some i, st1)" by simp
  note f = EnsureInstance_fields[OF e]
  show "\<exists>st'. AddTrack P track chans sampleRate st = Some (False, st')
                 \<and> mCurrentProcessor st' = mCurrentProcessor st
                 \<and> mGroups st' = mGroups st"
    using f by (simp add: AddTrack_def e Let_def alloc_first_declined[where f = "AddTrack_callback P (GetAudioInCount P i) sampleRate", OF c cb])
next
  assume ok: "AddTrack P track chans sampleRate st = Some (True, st')"
  obtain r st1 where e: "EnsureInstance P sampleRate st = (r, st1)" by (cases "EnsureInstance P sampleRate st")
  with ok obtain i where r: "r = Some i" by (cases r) (auto simp: AddTrack_def)
  note f = EnsureInstance_fields[OF e]
  from f(3) r have pl: "mPlugin st1" by simp
  from ok e r pl obtain i' st2 where
    run: "AllocateChannelsToProcessors chans (GetAudioInCount P i) (GetAudioOutCount P i)
            (AddTrack_callback P (GetAudioInCount P i) sampleRate) (i, st1) = Some (i', st2)"
    and gt: "mCurrentProcessor st2 > mCurrentProcessor st1"
    and st': "st' = st2\<lparr>mwInstance := Some i',
                 mGroups := (mGroups st2)(track \<mapsto> (mCurrentProcessor st1, sampleRate))\<rparr>"
    by (auto simp: AddTrack_def Let_def split: option.splits if_splits)
  from gt have ne: "mCurrentProcessor st2 \<noteq> mCurrentProcessor st1" by auto
  from alloc_AddTrack_changed[OF run ne] e r
  show "\<exists>i st1. EnsureInstance P sampleRate st = (Some i, st1) \<and> 0 < chans
                 \<and> fst (RealtimeAddProcessor P (settings (mWorkerSettings st1)) (mOutputs st1)
                          (GetAudioInCount P i) sampleRate i)" by auto
  from ne st' f show "mCurrentProcessor st' \<noteq> mCurrentProcessor st" by simp
  have "mGroups (snd (i', st2)) = mGroups (snd (i, st1))"
    by (rule alloc_loop_invariant[where I = "\<lambda>s. mGroups (snd s) = mGroups (snd (i, st1))",
          OF run[unfolded AllocateChannelsToProcessors_def]])
       (auto dest: AddTrack_callback_groups)
  with st' f show "mGroups st' = (mGroups st)(track \<mapsto> (mCurrentProcessor st, sampleRate))"
    by simp
qed

theorem C8_AddTrack_witness:
  "map_option fst (AddTrack (accepting 0) 7 1 44100 fresh_state) = Some False
   \<and> map_option (mCurrentProcessor \<circ> snd) (AddTrack (accepting 0) 7 1 44100 fresh_state) = Some 0
   \<and> map_option fst (AddTrack (accepting 1) 7 1 44100 fresh_state) = Some True
   \<and> map_option (\<lambda>r. mGroups (snd r) 7) (AddTrack (accepting 1) 7 1 44100 fresh_state)
       = Some (Some (0, 44100))"
proof -
  obtain st1 where e0: "EnsureInstance (accepting 0) 44100 fresh_state = (Some [InitializeHook], st1)"
    by (simp add: EnsureInstance_def sample_defs Let_def IsActive_def)
  have d: "\<not> fst (RealtimeAddProcessor (accepting 0) (settings (mWorkerSettings st1)) (mOutputs st1)
                       (GetAudioInCount (accepting 0) [InitializeHook]) 44100 [InitializeHook])"
    by (simp add: sample_defs)
  from C8_AddTrack[where P = "accepting 0" and st = fresh_state and chans = 1
      and sampleRate = 44100 and track = 7,
      THEN conjunct1, rule_format, of "[InitializeHook]" st1] e0 d
  obtain st' where a: "AddTrack (accepting 0) 7 1 44100 fresh_state = Some (False, st')"
    "mCurrentProcessor st' = mCurrentProcessor fresh_state" by auto
  have r1: "map_option fst (AddTrack (accepting 1) 7 1 44100 fresh_state) = Some True"
    by (simp add: AddTrack_defs alloc_loop.simps sample_defs)
  then obtain st2 where b: "AddTrack (accepting 1) 7 1 44100 fresh_state = Some (True, st2)" by auto
  from C8_AddTrack[where P = "accepting 1" and st = fresh_state and chans = 1
      and sampleRate = 44100 and track = 7 and st' = st2, THEN conjunct2, rule_format, OF b]
  have "mGroups st2 = (mGroups fresh_state)(7 \<mapsto> (mCurrentProcessor fresh_state, 44100))" by simp
  with a b show ?thesis by (simp add: constructed_def fresh_state_def)
qed

text \<open>
  The claim as stated fails: with two channels and a plugin that accepts one processor,
  the second \<^verbatim>\<open>RealtimeAddProcessor\<close> call declines, and yet \<^verbatim>\<open>AddTrack\<close>
  succeeds and leaves the processor index at 1.
\<close>

theorem C8_counterexample:
  "map_option fst (AddTrack (accepting 1) 7 2 44100 fresh_state) = Some True
   \<and> map_option (mCurrentProcessor \<circ> snd) (AddTrack (accepting 1) 7 2 44100 fresh_state) = Some 1
   \<and> map_option (mwInstance \<circ> snd) (AddTrack (accepting 1) 7 2 44100 fresh_state)
       = Some (Some [InitializeHook, AddProcessorHook, AddProcessorHook])
   \<and> \<not> fst (RealtimeAddProcessor (accepting 1)
              \<lparr>any_value = Some (), extra = \<lparr>mActive = True\<rparr>\<rparr> None 1 44100
              [InitializeHook, AddProcessorHook])"
  by (simp add: AddTrack_defs alloc_loop.simps sample_defs)

section \<open>Finalize\<close>




section \<open>Process: pass-through\<close>

lemma memcpy_samples:
  fixes numSamples :: size_t
  assumes "unat numSamples * 4 < 2 ^ 64"
  shows "memcpy m dst src (numSamples * 4)
           = (\<lambda>a. if dst \<le> a \<and> a < dst + unat numSamples then m (src + (a - dst)) else m a)"
proof -
  have "unat (numSamples * 4) = unat numSamples * 4"
    using assms by (simp add: unat_mult_lem[THEN iffD1])
  then show ?thesis by (simp add: memcpy_def)
qed

lemma copy_channels:
  fixes numSamples :: size_t and m0 :: "'a memory"
  assumes size: "unat numSamples * 4 < 2 ^ 64"
    and io: "\<forall>ii<c. \<forall>jj<c. outbuf ! ii + unat numSamples \<le> inbuf ! jj
                           \<or> inbuf ! jj + unat numSamples \<le> outbuf ! ii"
    and oo: "\<forall>ii<c. \<forall>jj<c. ii \<noteq> jj \<longrightarrow> outbuf ! ii + unat numSamples \<le> outbuf ! jj
                           \<or> outbuf ! jj + unat numSamples \<le> outbuf ! ii"
    and j: "j \<le> c"
  shows "copied_upto m0
           (fold (\<lambda>ii m'. memcpy m' (outbuf ! ii) (inbuf ! ii) (numSamples * 4)) [0..<j] m0)
           inbuf outbuf (unat numSamples) j"
  using j
proof (induction j)
  case 0
  show ?case by (simp add: copied_upto_def)
next
  case (Suc j)
  let ?n = "unat numSamples"
  let ?m = "fold (\<lambda>ii m'. memcpy m' (outbuf ! ii) (inbuf ! ii) (numSamples * 4)) [0..<j] m0"
  from Suc have IH: "copied_upto m0 ?m inbuf outbuf ?n j" and jc: "j < c" by simp_all
  have step: "fold (\<lambda>ii m'. memcpy m' (outbuf ! ii) (inbuf ! ii) (numSamples * 4)) [0..<Suc j] m0
        = (\<lambda>a. if outbuf ! j \<le> a \<and> a < outbuf ! j + ?n
                then ?m (inbuf ! j + (a - outbuf ! j)) else ?m a)"
  proof -
    have "fold (\<lambda>ii m'. memcpy m' (outbuf ! ii) (inbuf ! ii) (numSamples * 4)) [0..<Suc j] m0
       = memcpy ?m (outbuf ! j) (inbuf ! j) (numSamples * 4)"
      by simp
    then show ?thesis by (simp only: memcpy_samples[OF size])
  qed
  show ?case
    unfolding step copied_upto_def
  proof (intro conjI allI impI)
    fix ii k assume ii: "ii < Suc j" and k: "k < ?n"
    show "(if outbuf ! j \<le> outbuf ! ii + k \<and> outbuf ! ii + k < outbuf ! j + ?n
           then ?m (inbuf ! j + (outbuf ! ii + k - outbuf ! j)) else ?m (outbuf ! ii + k))
          = m0 (inbuf ! ii + k)"
    proof (cases "ii = j")
      case True
      have "\<forall>i'<j. inbuf ! j + k < outbuf ! i' \<or> outbuf ! i' + ?n \<le> inbuf ! j + k"
      proof (intro allI impI)
        fix i' assume "i' < j"
        with jc io have "outbuf ! i' + ?n \<le> inbuf ! j \<or> inbuf ! j + ?n \<le> outbuf ! i'"
          by simp
        with k show "inbuf ! j + k < outbuf ! i' \<or> outbuf ! i' + ?n \<le> inbuf ! j + k"
          by linarith
      qed
      with IH have "?m (inbuf ! j + k) = m0 (inbuf ! j + k)"
        by (simp add: copied_upto_def)
      with True k show ?thesis by simp
    next
      case False
      with ii have lt: "ii < j" by simp
      from oo lt jc False have "outbuf ! ii + ?n \<le> outbuf ! j \<or> outbuf ! j + ?n \<le> outbuf ! ii"
        by simp
      with k have neg: "\<not> (outbuf ! j \<le> outbuf ! ii + k \<and> outbuf ! ii + k < outbuf ! j + ?n)"
        by linarith
      from IH lt k have e: "?m (outbuf ! ii + k) = m0 (inbuf ! ii + k)"
        by (simp add: copied_upto_def)
      show ?thesis by (simp only: neg if_False e)
    qed
  next
    fix a assume a: "\<forall>ii<Suc j. a < outbuf ! ii \<or> outbuf ! ii + ?n \<le> a"
    then have "a < outbuf ! j \<or> outbuf ! j + ?n \<le> a" by simp
    then have neg: "\<not> (outbuf ! j \<le> a \<and> a < outbuf ! j + ?n)" by linarith
    from a IH have e: "?m a = m0 a" by (simp add: copied_upto_def)
    show "(if outbuf ! j \<le> a \<and> a < outbuf ! j + ?n
           then ?m (inbuf ! j + (a - outbuf ! j)) else ?m a) = m0 a"
      by (simp only: neg if_False e)
  qed
qed

text \<open>
  C6. A \<^verbatim>\<open>Process\<close> call on a state with no bound plugin, no live instance or a
  false recorded activity returns 0 and leaves the state as it is, and afterwards each of
  the \<open>chans\<close> output buffers holds, sample for sample over \<open>numSamples\<close> samples, what
  the corresponding input buffer held; for any channel count and block length. The
  buffers are what \<^verbatim>\<open>memcpy\<close> requires: \<open>chans\<close> of each, no output buffer
  overlapping an input buffer or another output buffer, and \<open>numSamples\<close> floats fit
  the address space.
\<close>

theorem C6_passthrough:
  fixes st :: "('c, 'o, 'i, 'w::len) RealtimeEffectState" and m :: "'a memory"
  assumes pass: "\<not> mPlugin st \<or> mwInstance st = None \<or> \<not> mLastActive st"
    and lens: "unat chans \<le> length inbuf" "unat chans \<le> length outbuf"
    and size: "unat numSamples * 4 < 2 ^ 64"
    and io: "\<forall>ii<unat chans. \<forall>jj<unat chans.
               outbuf ! ii + unat numSamples \<le> inbuf ! jj \<or> inbuf ! jj + unat numSamples \<le> outbuf ! ii"
    and oo: "\<forall>ii<unat chans. \<forall>jj<unat chans. ii \<noteq> jj \<longrightarrow>
               outbuf ! ii + unat numSamples \<le> outbuf ! jj \<or> outbuf ! jj + unat numSamples \<le> outbuf ! ii"
  shows "\<exists>m'. Process P track chans inbuf outbuf numSamples (st, m) = Some (0, st, m')
           \<and> (\<forall>ii<unat chans. \<forall>k<unat numSamples. m' (outbuf ! ii + k) = m (inbuf ! ii + k))"
proof -
  from pass have "(if \<not> mPlugin st \<or> \<not> mLastActive st then None else mwInstance st) = None"
    by auto
  then have "Process P track chans inbuf outbuf numSamples (st, m)
      = Some (0, st, fold (\<lambda>ii m'. memcpy m' (outbuf ! ii) (inbuf ! ii) (numSamples * 4))
                       [0..<unat chans] m)"
    by (simp add: Process_def Let_def)
  moreover from copy_channels[OF size io oo order_refl, of m]
  have "\<forall>ii<unat chans. \<forall>k<unat numSamples.
          fold (\<lambda>ii m'. memcpy m' (outbuf ! ii) (inbuf ! ii) (numSamples * 4)) [0..<unat chans] m
            (outbuf ! ii + k) = m (inbuf ! ii + k)"
    by (simp add: copied_upto_def)
  ultimately show ?thesis by blast
qed

theorem C6_passthrough_witness:
  "map_option (\<lambda>r. (fst r, fst (snd r), snd (snd r) 301, snd (snd r) 402))
     (Process failing_hooks 7 2 [100, 200] [300, 400] 3 (fresh_state, \<lambda>a. a))
   = Some (0, fresh_state, 101, 202)"
proof -
  have p: "\<not> mPlugin fresh_state \<or> mwInstance fresh_state = None \<or> \<not> mLastActive fresh_state"
    by (simp add: sample_defs)
  have u: "unat (2 :: u32) = Suc (Suc 0)" "unat (3 :: size_t) = 3"
    by simp_all
  have io: "\<forall>ii<unat (2 :: u32). \<forall>jj<unat (2 :: u32).
              [300, 400] ! ii + unat (3 :: size_t) \<le> [100, 200 :: nat] ! jj
              \<or> [100, 200] ! jj + unat (3 :: size_t) \<le> [300, 400 :: nat] ! ii"
    unfolding u by (simp add: less_Suc_eq all_conj_distrib)
  have oo: "\<forall>ii<unat (2 :: u32). \<forall>jj<unat (2 :: u32). ii \<noteq> jj \<longrightarrow>
              [300, 400] ! ii + unat (3 :: size_t) \<le> [300, 400 :: nat] ! jj
              \<or> [300, 400] ! jj + unat (3 :: size_t) \<le> [300, 400 :: nat] ! ii"
    unfolding u by (simp add: less_Suc_eq all_conj_distrib)
  from C6_passthrough[where P = failing_hooks and track = 7 and m = "\<lambda>a. a", OF p _ _ _ io oo]
  obtain m' where r: "Process failing_hooks 7 2 [100, 200] [300, 400] 3 (fresh_state, \<lambda>a. a)
        = Some (0, fresh_state, m')"
    and c: "\<forall>ii<unat (2 :: u32). \<forall>k<unat (3 :: size_t). m' ([300, 400] ! ii + k) = [100, 200] ! ii + k"
    by auto
  from c[rule_format, of 0 1] c[rule_format, of 1 2] have "m' 301 = 101" "m' 402 = 202"
    by simp_all
  with r show ?thesis by simp
qed

section \<open>Process: latency accounting\<close>



















section \<open>The two traversals\<close>

text \<open>Tracing does not change what the callback does to its state.\<close>

lemma tracing_Some:
  "tracing f indx ondx ls = Some r \<longleftrightarrow>
     (\<exists>s'. f indx ondx (snd ls) = Some (fst r, s') \<and> snd r = (fst ls @ [(indx, ondx, fst r)], s'))"
  by (cases r) (auto simp: tracing_def split: option.splits)

lemma traced_run_untraced:
  assumes run: "alloc_loop chans nin nout (tracing f) indx ondx ls = Some ls'"
  shows "alloc_loop chans nin nout f indx ondx (snd ls) = Some (snd ls')"
proof -
  let ?P = "\<lambda>chans nin nout g indx ondx ls ls'. g = tracing f \<longrightarrow>
              alloc_loop chans nin nout f indx ondx (snd ls) = Some (snd ls')"
  have "?P chans nin nout (tracing f) indx ondx ls ls'"
  proof (rule alloc_loop.raw_induct[where P = ?P, OF _ run], rule impI)
    fix loop chans nin nout g indx ondx ls ls'
    assume IH: "\<And>chans nin nout g indx ondx ls ls'.
                  loop chans nin nout g indx ondx ls = Some ls'
                    \<Longrightarrow> ?P chans nin nout g indx ondx ls ls'"
      and body: "(if ondx < chans
          then case g indx ondx ls of None \<Rightarrow> None
               | Some (ok, s') \<Rightarrow>
                   if \<not> ok then Some s'
                   else loop chans nin nout g ((indx + nin) mod chans) (ondx + nout) s'
          else Some ls) = Some ls'"
      and g: "g = tracing f"
    show "alloc_loop chans nin nout f indx ondx (snd ls) = Some (snd ls')"
    proof (cases "ondx < chans")
      case False
      with body show ?thesis by (subst alloc_loop.simps) simp
    next
      case True
      with body obtain ok s1 where fs: "f indx ondx (snd ls) = Some (ok, s1)"
        by (auto simp: g tracing_def split: option.splits)
      then have gs: "g indx ondx ls = Some (ok, (fst ls @ [(indx, ondx, ok)], s1))"
        by (simp add: g tracing_def)
      show ?thesis
      proof (cases ok)
        case False
        with True gs body fs show ?thesis by (subst alloc_loop.simps) auto
      next
        case ok: True
        with True gs body
        have "loop chans nin nout g ((indx + nin) mod chans) (ondx + nout)
                (fst ls @ [(indx, ondx, True)], s1) = Some ls'" by simp
        from IH[OF this] g
        have "alloc_loop chans nin nout f ((indx + nin) mod chans) (ondx + nout) s1 = Some (snd ls')"
          by simp
        with True fs ok show ?thesis by (subst alloc_loop.simps) simp
      qed
    qed
  qed
  then show ?thesis by simp
qed

lemma untraced_run_traced:
  assumes run: "alloc_loop chans nin nout f indx ondx s = Some s'"
  shows "\<exists>cs'. alloc_loop chans nin nout (tracing f) indx ondx (cs, s) = Some (cs', s')"
proof -
  let ?P = "\<lambda>chans nin nout g indx ondx s s'. g = f \<longrightarrow>
              (\<forall>cs. \<exists>cs'. alloc_loop chans nin nout (tracing f) indx ondx (cs, s) = Some (cs', s'))"
  have "?P chans nin nout f indx ondx s s'"
  proof (rule alloc_loop.raw_induct[where P = ?P, OF _ run], intro impI allI)
    fix loop chans nin nout g indx ondx s s' cs
    assume IH: "\<And>chans nin nout g indx ondx s s'.
                  loop chans nin nout g indx ondx s = Some s'
                    \<Longrightarrow> ?P chans nin nout g indx ondx s s'"
      and body: "(if ondx < chans
          then case g indx ondx s of None \<Rightarrow> None
               | Some (ok, s') \<Rightarrow>
                   if \<not> ok then Some s'
                   else loop chans nin nout g ((indx + nin) mod chans) (ondx + nout) s'
          else Some s) = Some s'"
      and g: "g = f"
    show "\<exists>cs'. alloc_loop chans nin nout (tracing f) indx ondx (cs, s) = Some (cs', s')"
    proof (cases "ondx < chans")
      case False
      with body show ?thesis by (subst alloc_loop.simps) simp
    next
      case True
      with body obtain ok s1 where fs: "f indx ondx s = Some (ok, s1)"
        by (auto simp: g split: option.splits)
      show ?thesis
      proof (cases ok)
        case False
        with True body fs g show ?thesis
          by (subst alloc_loop.simps) (auto simp: tracing_def)
      next
        case ok: True
        with True fs body g
        have "loop chans nin nout g ((indx + nin) mod chans) (ondx + nout) s1 = Some s'" by simp
        from IH[OF this] g obtain cs' where
          "alloc_loop chans nin nout (tracing f) ((indx + nin) mod chans) (ondx + nout)
             (cs @ [(indx, ondx, True)], s1) = Some (cs', s')" by blast
        with True fs ok show ?thesis
          by (subst alloc_loop.simps) (simp add: tracing_def)
      qed
    qed
  qed
  then show ?thesis by simp
qed

text \<open>With a callback that never returns false, every recorded call succeeded.\<close>

lemma traced_all_ok:
  assumes run: "alloc_loop chans nin nout (tracing f) indx ondx ([], s) = Some ls'"
    and ok: "\<And>indx ondx s ok s'. f indx ondx s = Some (ok, s') \<Longrightarrow> ok"
  shows "\<forall>c\<in>set (fst ls'). call_ok c"
proof -
  have "(\<lambda>ls. \<forall>c\<in>set (fst ls). call_ok c) ls'"
  proof (rule alloc_loop_invariant[OF run])
    fix indx ondx ls b ls'
    assume I: "\<forall>c\<in>set (fst ls). call_ok c"
      and t: "tracing f indx ondx ls = Some (b, ls')"
    from t obtain s' where "f indx ondx (snd ls) = Some (b, s')"
      and e: "ls' = (fst ls @ [(indx, ondx, b)], s')"
      by (auto simp: tracing_Some)
    with ok have b by blast
    with I e show "\<forall>c\<in>set (fst ls'). call_ok c" by (simp add: call_ok_def)
  qed simp
  then show ?thesis .
qed

text \<open>Two complete records of calls for the same channel count and arities are equal.\<close>

lemma complete_traces_equal:
  assumes 1: "trace_ok chans nin nout indx ondx cs1" "\<forall>c\<in>set cs1. call_ok c"
    and 2: "trace_ok chans nin nout indx ondx cs2" "\<forall>c\<in>set cs2. call_ok c"
  shows "map call_pair cs1 = map call_pair cs2"
proof -
  have len: "length cs1 = length cs2"
  proof (rule ccontr)
    assume ne: "length cs1 \<noteq> length cs2"
    have short: "\<And>a b :: call list. trace_ok chans nin nout indx ondx a \<Longrightarrow> \<forall>c\<in>set a. call_ok c
                   \<Longrightarrow> trace_ok chans nin nout indx ondx b \<Longrightarrow> length a < length b \<Longrightarrow> False"
    proof -
      fix a b :: "call list"
      assume a: "trace_ok chans nin nout indx ondx a" and ok: "\<forall>c\<in>set a. call_ok c"
        and b: "trace_ok chans nin nout indx ondx b" and lt: "length a < length b"
      have "a = [] \<or> call_ok (last a)" using ok by (cases "a = []") simp_all
      with a have "\<not> ondx + of_nat (length a) * nout < chans" by (simp add: trace_ok_def)
      moreover from b lt have "ondx + of_nat (length a) * nout < chans" by (simp add: trace_ok_def)
      ultimately show False by simp
    qed
    from ne consider "length cs1 < length cs2" | "length cs2 < length cs1" by linarith
    then show False
      using short[OF 1 2(1)] short[OF 2 1(1)] by cases blast+
  qed
  show ?thesis
  proof (rule nth_equalityI)
    show "length (map call_pair cs1) = length (map call_pair cs2)" using len by simp
  next
    fix k assume "k < length (map call_pair cs1)"
    then have k: "k < length cs1" "k < length cs2" using len by simp_all
    with 1(1) 2(1) show "map call_pair cs1 ! k = map call_pair cs2 ! k"
      by (simp add: trace_ok_def)
  qed
qed

lemma trace_3_2_1: "trace_ok 3 2 1 0 0 [(0, 0, True), (2, 1, True), (1, 2, True)]"
proof -
  have "AllocateChannelsToProcessors 3 2 1 (tracing (\<lambda>indx ondx s. Some (True, s))) ([], ())
          = Some ([(0, 0, True), (2, 1, True), (1, 2, True)], ())"
    by (simp add: AllocateChannelsToProcessors_def alloc_loop.simps tracing_def)
  from alloc_loop_trace[OF this[unfolded AllocateChannelsToProcessors_def]]
  show ?thesis by simp
qed

lemma Process_callback_ok:
  "\<forall>indx ondx L b L'.
     Process_callback P ws rate chans inbuf outbuf numSamples nin nout indx ondx L = Some (b, L')
       \<longrightarrow> b"
  by (auto simp: Process_callback_def Let_def split: option.splits)

lemma traversal_complete:
  assumes run: "AllocateChannelsToProcessors chans nin nout (tracing f) ([], s) = Some ls'"
    and ok: "\<forall>indx ondx s b s'. f indx ondx s = Some (b, s') \<longrightarrow> b"
  shows "trace_ok chans nin nout 0 0 (fst ls') \<and> (\<forall>c\<in>set (fst ls'). call_ok c)"
proof -
  from ok have ok': "\<And>indx ondx s b s'. f indx ondx s = Some (b, s') \<Longrightarrow> b" by blast
  from alloc_loop_trace[OF run[unfolded AllocateChannelsToProcessors_def]]
    traced_all_ok[OF run[unfolded AllocateChannelsToProcessors_def] ok']
  show ?thesis by simp
qed

text \<open>
  The traversals are the allocator runs of the two functions: a run under \<open>tracing\<close>
  returns when the run without it does, with the same state, so that \<^verbatim>\<open>AddTrack\<close>
  and \<^verbatim>\<open>Process\<close> are what they are with the allocator run that records the calls.
\<close>

lemma traced_allocator:
  "map_option snd (AllocateChannelsToProcessors chans nin nout (tracing f) (cs, s))
     = AllocateChannelsToProcessors chans nin nout f s"
proof (cases "alloc_loop chans nin nout (tracing f) 0 0 (cs, s)")
  case None
  have "alloc_loop chans nin nout f 0 0 s = None"
  proof (cases "alloc_loop chans nin nout f 0 0 s")
    case (Some s')
    from untraced_run_traced[OF Some, of cs] None show ?thesis by simp
  qed simp
  with None show ?thesis by (simp add: AllocateChannelsToProcessors_def)
next
  case (Some ls')
  from traced_run_untraced[OF Some] Some show ?thesis
    by (simp add: AllocateChannelsToProcessors_def)
qed

lemma case_traced:
  "(case AllocateChannelsToProcessors chans nin nout (tracing f) (cs, s) of
      None \<Rightarrow> None | Some (cs', s') \<Rightarrow> g s')
   = (case AllocateChannelsToProcessors chans nin nout f s of None \<Rightarrow> None | Some s' \<Rightarrow> g s')"
  by (simp add: traced_allocator[of chans nin nout f cs s, symmetric]
        split: option.splits prod.splits)

lemma AddTrack_traced:
  "AddTrack P track chans sampleRate st =
     (case EnsureInstance P sampleRate st of
        (None, st1) \<Rightarrow> Some (False, st1)
      | (Some i, st1) \<Rightarrow>
          if \<not> mPlugin st1 then Some (False, st1)
          else
            (case AllocateChannelsToProcessors chans (GetAudioInCount P i) (GetAudioOutCount P i)
                    (tracing (AddTrack_callback P (GetAudioInCount P i) sampleRate)) ([], (i, st1)) of
               None \<Rightarrow> None
             | Some (cs, (i', st2)) \<Rightarrow>
                 if mCurrentProcessor st2 > mCurrentProcessor st1
                 then Some (True, st2\<lparr>mwInstance := Some i',
                              mGroups := (mGroups st2)(track \<mapsto> (mCurrentProcessor st1, sampleRate))\<rparr>)
                 else Some (False, st2\<lparr>mwInstance := map_option (\<lambda>_. i') (mwInstance st)\<rparr>)))"
  unfolding AddTrack_def Let_def case_traced by (rule refl)

lemma Process_traced:
  "Process P track chans inbuf outbuf numSamples sm =
     (case (if \<not> mPlugin (fst sm) \<or> \<not> mLastActive (fst sm) then None else mwInstance (fst sm)) of
        None \<Rightarrow>
          Some (0, fst sm,
                fold (\<lambda>ii m'. memcpy m' (outbuf ! ii) (inbuf ! ii) (numSamples * 4))
                  [0..<unat chans] (snd sm))
      | Some i \<Rightarrow>
          (case AllocateChannelsToProcessors chans (GetAudioInCount P i) (GetAudioOutCount P i)
                  (tracing (Process_callback P (settings (mWorkerSettings (fst sm)))
                              (snd (group_entry (fst sm) track)) chans inbuf outbuf numSamples
                              (GetAudioInCount P i) (GetAudioOutCount P i)))
                  ([], Process_locals P (fst sm) track i (snd sm)) of
             None \<Rightarrow> None
           | Some (cs, L) \<Rightarrow>
               Some (numSamples - len L,
                     (fst sm)\<lparr>mGroups := (mGroups (fst sm))(track \<mapsto> group_entry (fst sm) track),
                              mLatency := latency L, mwInstance := Some (inst L)\<rparr>,
                     store L)))"
  unfolding Process_def Let_def case_traced by (simp add: split_beta)

text \<open>
  So \<^verbatim>\<open>AddTrack\<close> and \<^verbatim>\<open>Process\<close> return exactly when their traversals do.
\<close>

lemma AddTrack_returns_iff:
  "AddTrack P track chans sampleRate st = None \<longleftrightarrow> AddTrack_visits P chans sampleRate st = None"
  unfolding AddTrack_traced AddTrack_visits_def AddTrack_traversal_def
  by (auto split: prod.splits option.splits)

lemma Process_returns_iff:
  "Process P track chans inbuf outbuf numSamples sm = None
     \<longleftrightarrow> Process_visits P track chans inbuf outbuf numSamples sm = None"
  unfolding Process_traced Process_visits_def Process_traversal_def
  by (auto split: prod.splits option.splits)

text \<open>
  When no \<^verbatim>\<open>RealtimeAddProcessor\<close> call of the traversal of \<^verbatim>\<open>AddTrack\<close>
  declines, the two traversals are the same, for the same channel count and arities: the
  allocator passes the same sequence of (input offset, output offset) pairs to the lambda
  of \<^verbatim>\<open>AddTrack\<close> and to the lambda of \<^verbatim>\<open>Process\<close>; for 3 channels, input
  arity 2 and output arity 1 that sequence is (0,0), (2,1), (1,2) at both call sites.
\<close>

lemma same_traversal_when_accepted:
  fixes P :: "('c, 'o, 'i, 'a) EffectPlugin" and st sta :: "('c, 'o, 'i, 'w::len) RealtimeEffectState"
  assumes same: "GetAudioInCount P i' = GetAudioInCount P i"
              "GetAudioOutCount P i' = GetAudioOutCount P i"
    and ra: "AddTrack_traversal P chans sampleRate i sta = Some ca"
    and ok: "\<forall>c\<in>set ca. call_ok c"
    and rp: "Process_traversal P track chans inbuf outbuf numSamples i' st m = Some cp"
  shows "map call_pair ca = map call_pair cp"
    and "chans = 3 \<and> GetAudioInCount P i = 2 \<and> GetAudioOutCount P i = 1
           \<Longrightarrow> map call_pair ca = [(0, 0), (2, 1), (1, 2)]"
proof -
  let ?nin = "GetAudioInCount P i" and ?nout = "GetAudioOutCount P i"
  from ra obtain sa where
    ra': "AllocateChannelsToProcessors chans ?nin ?nout
           (tracing (AddTrack_callback P ?nin sampleRate)) ([], (i, sta)) = Some (ca, sa)"
    by (auto simp: AddTrack_traversal_def)
  from rp same obtain sp where
    rp': "AllocateChannelsToProcessors chans ?nin ?nout
           (tracing (Process_callback P (settings (mWorkerSettings st))
                      (snd (group_entry st track)) chans inbuf outbuf numSamples ?nin ?nout))
           ([], Process_locals P st track i' m) = Some (cp, sp)"
    by (auto simp: Process_traversal_def)
  from alloc_loop_trace[OF ra'[unfolded AllocateChannelsToProcessors_def]] ok
  have a: "trace_ok chans ?nin ?nout 0 0 ca" "\<forall>c\<in>set ca. call_ok c" by simp_all
  from traversal_complete[OF rp' Process_callback_ok]
  have p: "trace_ok chans ?nin ?nout 0 0 cp" "\<forall>c\<in>set cp. call_ok c" by simp_all
  show "map call_pair ca = map call_pair cp"
    by (rule complete_traces_equal[OF a p])
  assume e: "chans = 3 \<and> GetAudioInCount P i = 2 \<and> GetAudioOutCount P i = 1"
  have t: "\<forall>c\<in>set [(0, 0, True), (2, 1, True), (1 :: u32, 2 :: u32, True)]. call_ok c"
    by (simp add: call_ok_def)
  from complete_traces_equal[OF a[unfolded e[THEN conjunct1] e[THEN conjunct2, THEN conjunct1]
        e[THEN conjunct2, THEN conjunct2]] trace_3_2_1 t]
  show "map call_pair ca = [(0, 0), (2, 1), (1, 2)]" by (simp add: call_pair_def)
qed

text \<open>
  C3. The code at the failing input: 3 channels, a plugin with input arity 2 and output
  arity 1 that accepts one processor and declines the next. \<^verbatim>\<open>AddTrack\<close> on the
  freshly constructed state calls its lambda with (0,0) and with (2,1), where
  \<^verbatim>\<open>RealtimeAddProcessor\<close> declines and the traversal stops; \<^verbatim>\<open>AddTrack\<close>
  succeeds all the same, with one processor added and the group of the track recorded.
  \<^verbatim>\<open>Process\<close> on the state that \<^verbatim>\<open>AddTrack\<close> has left then calls its lambda
  with (0,0), (2,1) and (1,2) and the instance's \<^verbatim>\<open>RealtimeProcess\<close> three times,
  for the processors 0, 1 and 2, of which only the first was added. The two traversals
  are not the same, against the comments on both functions.
\<close>

theorem C3_code_at_failing_input:
  "AddTrack_visits (two_in_one_out 1) 3 44100 fresh_state = Some [(0, 0, True), (2, 1, False)]
   \<and> map_option fst (AddTrack (two_in_one_out 1) 7 3 44100 fresh_state) = Some True
   \<and> map_option (mCurrentProcessor \<circ> snd) (AddTrack (two_in_one_out 1) 7 3 44100 fresh_state)
       = Some 1
   \<and> map_option (\<lambda>r. mGroups (snd r) 7) (AddTrack (two_in_one_out 1) 7 3 44100 fresh_state)
       = Some (Some (0, 44100))
   \<and> Option.bind (AddTrack (two_in_one_out 1) 7 3 44100 fresh_state)
        (\<lambda>r. Process_visits (two_in_one_out 1) 7 3 [100, 200, 300] [400, 500, 600] 1
                (snd r, \<lambda>a. 0 :: real))
       = Some [(0, 0, True), (2, 1, True), (1, 2, True)]
   \<and> Option.bind (AddTrack (two_in_one_out 1) 7 3 44100 fresh_state)
        (\<lambda>r. map_option (\<lambda>q. mwInstance (fst (snd q)))
                (Process (two_in_one_out 1) 7 3 [100, 200, 300] [400, 500, 600] 1
                   (snd r, \<lambda>a. 0 :: real)))
       = Some (Some [InitializeHook, AddProcessorHook, AddProcessorHook,
                     ProcessHook, ProcessHook, ProcessHook])"
proof -
  let ?P = "two_in_one_out 1"
  have v: "AddTrack_visits ?P 3 44100 fresh_state = Some [(0, 0, True), (2, 1, False)]"
    by (simp add: AddTrack_visits_def EnsureInstance_def IsActive_def AddTrack_traversal_def
          AllocateChannelsToProcessors_def alloc_loop.simps tracing_def AddTrack_callback_def
          sample_defs Let_def)
  define added where "added = fresh_state
     \<lparr>mwInstance := Some [InitializeHook, AddProcessorHook, AddProcessorHook],
      mInitialized := True, mLastActive := True, mCurrentProcessor := 1,
      mGroups := [7 \<mapsto> (0, 44100)], mWorkerSettings := mMainSettings fresh_state\<rparr>"
  have a: "AddTrack ?P 7 3 44100 fresh_state = Some (True, added)"
    by (simp add: AddTrack_defs alloc_loop.simps sample_defs added_def)
  have f: "mCurrentProcessor added = 1" "mGroups added 7 = Some (0, 44100)"
    by (simp_all add: added_def)
  have p: "Process_visits ?P 7 3 [100, 200, 300] [400, 500, 600] 1 (added, \<lambda>a. 0 :: real)
             = Some [(0, 0, True), (2, 1, True), (1, 2, True)]"
    by (simp add: Process_visits_def Process_traversal_def AllocateChannelsToProcessors_def
          alloc_loop.simps tracing_def Process_callback_def fill_inputs.simps block_loop.simps
          block_body_def Process_locals_def group_entry_def sample_defs Let_def added_def)
  have q: "map_option (\<lambda>q. mwInstance (fst (snd q)))
             (Process ?P 7 3 [100, 200, 300] [400, 500, 600] 1 (added, \<lambda>a. 0 :: real))
           = Some (Some [InitializeHook, AddProcessorHook, AddProcessorHook,
                         ProcessHook, ProcessHook, ProcessHook])"
    by (simp add: Process_def AllocateChannelsToProcessors_def
          alloc_loop.simps Process_callback_def fill_inputs.simps block_loop.simps
          block_body_def Process_locals_def group_entry_def sample_defs Let_def added_def)
  from v f p q show ?thesis unfolding a by simp
qed

text \<open>
  At this input \<^verbatim>\<open>Process\<close> is on its processing path, not on the path that only
  copies: the state that \<^verbatim>\<open>AddTrack\<close> has left has its plugin, a live instance and
  the recorded activity true.
\<close>

theorem C3_code_at_failing_input_witness:
  "\<exists>st. AddTrack (two_in_one_out 1) 7 3 44100 fresh_state = Some (True, st)
      \<and> mPlugin st \<and> mLastActive st
      \<and> mwInstance st = Some [InitializeHook, AddProcessorHook, AddProcessorHook]
      \<and> mCurrentProcessor st = 1
      \<and> Process_visits (two_in_one_out 1) 7 3 [100, 200, 300] [400, 500, 600] 1
           (st, \<lambda>a. 0 :: real)
         = Some [(0, 0, True), (2, 1, True), (1, 2, True)]"
proof -
  let ?P = "two_in_one_out 1"
  note t = C3_code_at_failing_input
  from t[THEN conjunct2, THEN conjunct1]
  obtain st where a: "AddTrack ?P 7 3 44100 fresh_state = Some (True, st)" by auto
  from t[THEN conjunct2, THEN conjunct2, THEN conjunct1] a
  have c: "mCurrentProcessor st = 1" by simp
  from t[THEN conjunct2, THEN conjunct2, THEN conjunct2, THEN conjunct2, THEN conjunct1] a
  have p: "Process_visits ?P 7 3 [100, 200, 300] [400, 500, 600] 1 (st, \<lambda>a. 0 :: real)
             = Some [(0, 0, True), (2, 1, True), (1, 2, True)]" by simp
  have "map_option (\<lambda>r. (mPlugin (snd r), mLastActive (snd r), mwInstance (snd r)))
          (AddTrack ?P 7 3 44100 fresh_state)
        = Some (True, True, Some [InitializeHook, AddProcessorHook, AddProcessorHook])"
    by (simp add: AddTrack_defs alloc_loop.simps sample_defs)
  with a have f: "mPlugin st" "mLastActive st"
      "mwInstance st = Some [InitializeHook, AddProcessorHook, AddProcessorHook]"
    by simp_all
  from a f c p show ?thesis by blast
qed

end
